theory Spec2Isabelle
  imports Complex_Main "HOL-Library.Char_ord" "HOL-Library.List_Lexorder" "HOL-Library.Multiset"
begin

section \<open>Python values and strings\<close>

text \<open>
  The values that \<open>json\<close> and \<open>yaml.safe_load\<close> decode to. A \<open>dict\<close> is the list of its
  items in insertion order, with string keys; a lookup takes the first item of the key.
  Strings are \<open>string\<close>s of ASCII characters: the string methods below are Python's on
  ASCII text (a character code above 127 is treated as neither a space, a digit nor a
  letter).
\<close>

datatype pyval =
    PyNone
  | PyBool bool
  | PyInt int
  | PyFloat real
  | PyStr string
  | PyList "pyval list"
  | PyDict "(string \<times> pyval) list"

datatype error =
    FileNotFoundError
  | YAMLError
  | AttributeError
  | TypeError
  | RequestError

text \<open>Truth value testing, and \<open>a or b\<close>: \<open>a\<close> when it is true, else \<open>b\<close>.\<close>

fun truthy :: "pyval \<Rightarrow> bool" where
  "truthy PyNone = False"
| "truthy (PyBool b) = b"
| "truthy (PyInt i) = (i \<noteq> 0)"
| "truthy (PyFloat x) = (x \<noteq> 0)"
| "truthy (PyStr s) = (s \<noteq> [])"
| "truthy (PyList xs) = (xs \<noteq> [])"
| "truthy (PyDict d) = (d \<noteq> [])"

definition py_or :: "pyval \<Rightarrow> pyval \<Rightarrow> pyval" where
  "py_or a b = (if truthy a then a else b)"

text \<open>\<open>d.get(k)\<close>: the value, or \<open>None\<close> for a missing key.\<close>

definition dict_get :: "(string \<times> pyval) list \<Rightarrow> string \<Rightarrow> pyval" where
  "dict_get d k = (case map_of d k of None \<Rightarrow> PyNone | Some v \<Rightarrow> v)"

text \<open>Decimal digits of a natural number and of an integer, as \<open>str()\<close> prints them.\<close>

fun str_of_nat :: "nat \<Rightarrow> string" where
  "str_of_nat n =
     (if n < 10 then [char_of (48 + n)]
      else str_of_nat (n div 10) @ [char_of (48 + n mod 10)])"

definition str_of_int :: "int \<Rightarrow> string" where
  "str_of_int i = (if i < 0 then CHR ''-'' # str_of_nat (nat (- i)) else str_of_nat (nat i))"

text \<open>
  \<open>str(v)\<close>. On a float, a list and a dict it is Python's \<open>repr\<close>, which is not
  modelled: it is the parameter \<open>repr\<close> of every function that calls \<open>str\<close>.
\<close>

fun py_str :: "(pyval \<Rightarrow> string) \<Rightarrow> pyval \<Rightarrow> string" where
  "py_str repr PyNone = ''None''"
| "py_str repr (PyBool b) = (if b then ''True'' else ''False'')"
| "py_str repr (PyInt i) = str_of_int i"
| "py_str repr (PyStr s) = s"
| "py_str repr v = repr v"

text \<open>\<open>str.isspace\<close> on one ASCII character: tab to carriage return, the four separators, space.\<close>

definition is_space :: "char \<Rightarrow> bool" where
  "is_space c = (let n = (of_char c :: nat) in (9 \<le> n \<and> n \<le> 13) \<or> (28 \<le> n \<and> n \<le> 32))"

definition strip :: "string \<Rightarrow> string" where
  "strip s = rev (dropWhile is_space (rev (dropWhile is_space s)))"

text \<open>\<open>s.split(sep)\<close> for a one-character separator: always at least one piece.\<close>

fun split :: "char \<Rightarrow> string \<Rightarrow> string list" where
  "split sep [] = [[]]"
| "split sep (c # cs) =
     (if c = sep then [] # split sep cs
      else (case split sep cs of p # ps \<Rightarrow> (c # p) # ps | [] \<Rightarrow> [[c]]))"

text \<open>\<open>sep.join(xs)\<close>.\<close>

fun join :: "string \<Rightarrow> string list \<Rightarrow> string" where
  "join sep [] = []"
| "join sep [x] = x"
| "join sep (x # y # ys) = x @ sep @ join sep (y # ys)"

text \<open>\<open>re.sub(r"\<^verbatim>\<open>\s+\<close>", " ", s)\<close>: each maximal run of spaces becomes one blank.\<close>

function collapse_spaces :: "string \<Rightarrow> string" where
  "collapse_spaces [] = []"
| "collapse_spaces (c # cs) =
     (if is_space c then CHR '' '' # collapse_spaces (dropWhile is_space cs)
      else c # collapse_spaces cs)"
  by pat_completeness auto
termination
  by (relation "measure length") (auto simp: le_imp_less_Suc length_dropWhile_le)

text \<open>\<open>str.lower\<close>, \<open>str.casefold\<close> and \<open>str.upper\<close> on ASCII text.\<close>

definition lower_char :: "char \<Rightarrow> char" where
  "lower_char c = (let n = (of_char c :: nat) in if 65 \<le> n \<and> n \<le> 90 then char_of (n + 32) else c)"

definition upper_char :: "char \<Rightarrow> char" where
  "upper_char c = (let n = (of_char c :: nat) in if 97 \<le> n \<and> n \<le> 122 then char_of (n - 32) else c)"

definition lower :: "string \<Rightarrow> string" where
  "lower s = map lower_char s"

definition casefold :: "string \<Rightarrow> string" where
  "casefold s = map lower_char s"

definition upper :: "string \<Rightarrow> string" where
  "upper s = map upper_char s"

text \<open>\<open>str.isdigit\<close> and \<open>int(s)\<close> on a string of ASCII digits.\<close>

definition is_digit :: "char \<Rightarrow> bool" where
  "is_digit c = (let n = (of_char c :: nat) in 48 \<le> n \<and> n \<le> 57)"

definition isdigit :: "string \<Rightarrow> bool" where
  "isdigit s = (s \<noteq> [] \<and> list_all is_digit s)"

definition int_of_digits :: "string \<Rightarrow> int" where
  "int_of_digits s = foldl (\<lambda>a c. 10 * a + (int (of_char c) - 48)) 0 s"

text \<open>\<open>needle in hay\<close> on strings.\<close>

fun contains :: "string \<Rightarrow> string \<Rightarrow> bool" where
  "contains [] needle = (needle = [])"
| "contains (c # cs) needle = (take (length needle) (c # cs) = needle \<or> contains cs needle)"

text \<open>\<open>list(dict.fromkeys(xs))\<close>: the first occurrence of each element, in order.\<close>

definition fromkeys :: "'a list \<Rightarrow> 'a list" where
  "fromkeys xs = foldl (\<lambda>acc x. if x \<in> set acc then acc else acc @ [x]) [] xs"

text \<open>
  \<open>xs[i:j]\<close> with Python's treatment of negative and out-of-range bounds.
\<close>

definition slice_bound :: "nat \<Rightarrow> int \<Rightarrow> nat" where
  "slice_bound n k = (if k < 0 then nat (max 0 (int n + k)) else min n (nat k))"

definition py_slice :: "'a list \<Rightarrow> int \<Rightarrow> int \<Rightarrow> 'a list" where
  "py_slice xs i j =
     (let lo = slice_bound (length xs) i; hi = slice_bound (length xs) j
      in take (hi - lo) (drop lo xs))"

section \<open>Storage layer (storage/db.py)\<close>

text \<open>
  The database behind a connection is two tables. A table is the list of its rows in
  insertion order. Dates and timestamps are ISO strings; \<open>date.today()\<close> and
  \<open>datetime.now()\<close> are read from the clock, so every operation that reads them takes
  the value as the argument \<open>today\<close> (and \<open>now\<close>). Text is compared byte by byte, as
  SQLite's default collation does: the lexicographic order on \<open>string\<close>.
\<close>

record run_row =
  run_date :: string
  company :: string
  ran_at :: string
  total_jobs :: int
  new_jobs :: int

text \<open>
  \<open>JobLike\<close> is a structural protocol: anything with these five attributes. The type
  \<open>'u\<close> is the type of the values in the \<open>url\<close> attribute, which the storage layer
  only copies. A row of the \<open>jobs\<close> table has the same columns and the two dates.
\<close>

record 'u job_like =
  company :: string
  job_id :: string
  title :: string
  url :: 'u
  location :: "string option"

record 'u job_row = "'u job_like" +
  first_seen :: string
  last_seen :: string

record 'u db =
  jobs :: "'u job_row list"
  runs :: "run_row list"

text \<open>SQL's \<open>COALESCE(a, b)\<close>: the first argument that is not NULL.\<close>

definition coalesce :: "'a option \<Rightarrow> 'a option \<Rightarrow> 'a option" where
  "coalesce a b = (case a of Some v \<Rightarrow> Some v | None \<Rightarrow> b)"

text \<open>
  One \<open>INSERT ... ON CONFLICT(job_id) DO UPDATE\<close> statement of \<open>upsert_jobs\<close>: when
  a row with the job's \<open>job_id\<close> is stored, its \<open>title\<close>, \<open>url\<close>, \<open>location\<close>
  and \<open>last_seen\<close> are set (the company and \<open>first_seen\<close> are not in the \<open>SET\<close> list);
  otherwise a new row is appended.
\<close>

definition upsert_job ::
  "string \<Rightarrow> 'u job_row list \<Rightarrow> ('u, 'z) job_like_scheme \<Rightarrow> 'u job_row list" where
  "upsert_job today rows j =
     (if job_id j \<in> set (map job_id rows)
      then map (\<lambda>r. if job_id r = job_id j
                      then r\<lparr>title := title j, url := url j,
                             location := coalesce (location j) (location r),
                             last_seen := today\<rparr>
                      else r) rows
      else rows @ [\<lparr>company = job_like.company j, job_id = job_id j, title = title j,
                     url = url j, location = location j,
                     first_seen = today, last_seen = today\<rparr>])"

text \<open>\<open>upsert_jobs\<close>: \<open>today\<close> is read once, then the statement runs for each job in turn.\<close>

definition upsert_jobs ::
  "string \<Rightarrow> 'u db \<Rightarrow> ('u, 'z) job_like_scheme list \<Rightarrow> 'u db" where
  "upsert_jobs today conn js = conn\<lparr>jobs := foldl (upsert_job today) (jobs conn) js\<rparr>"

text \<open>\<open>record_run\<close>: the upsert of the run summary keyed by \<open>(run_date, company)\<close>.\<close>

definition record_run :: "string \<Rightarrow> string \<Rightarrow> 'u db \<Rightarrow> string \<Rightarrow> int \<Rightarrow> int \<Rightarrow> 'u db" where
  "record_run today now conn c n_total n_new =
     conn\<lparr>runs :=
       (if (today, c) \<in> set (map (\<lambda>r. (run_date r, run_row.company r)) (runs conn))
        then map (\<lambda>r. if run_date r = today \<and> run_row.company r = c
                        then r\<lparr>ran_at := now, total_jobs := n_total, new_jobs := n_new\<rparr>
                        else r) (runs conn)
        else runs conn @ [\<lparr>run_date = today, company = c, ran_at = now,
                            total_jobs = n_total, new_jobs = n_new\<rparr>])\<rparr>"

text \<open>
  \<open>get_last_run\<close>: the company's rows, \<open>ORDER BY run_date DESC LIMIT 1\<close>, as the tuple
  \<open>(run_date, ran_at, total_jobs, new_jobs)\<close>; \<open>fetchone()\<close> gives \<open>None\<close> on no row.
\<close>

definition get_last_run :: "'u db \<Rightarrow> string \<Rightarrow> (string \<times> string \<times> int \<times> int) option" where
  "get_last_run conn c =
     (case rev (sort_key run_date (filter (\<lambda>r. run_row.company r = c) (runs conn))) of
        [] \<Rightarrow> None
      | r # _ \<Rightarrow> Some (run_date r, ran_at r, total_jobs r, new_jobs r))"

text \<open>
  \<open>get_new_today\<close>: the rows of the company first seen today, \<open>ORDER BY title\<close>
  (rows of equal title stay in table order).
\<close>

definition get_new_today :: "string \<Rightarrow> 'u db \<Rightarrow> string \<Rightarrow> (string \<times> 'u \<times> string \<times> string) list" where
  "get_new_today today conn c =
     map (\<lambda>r. (title r, url r, first_seen r, last_seen r))
       (sort_key title
          (filter (\<lambda>r. job_like.company r = c \<and> first_seen r = today) (jobs conn)))"

text \<open>
  Two queries used to state properties: the row stored under a \<open>job_id\<close>
  (\<open>SELECT * FROM jobs WHERE job_id = ?\<close>), and the primary key of a \<open>runs\<close> row.
\<close>

definition select_job :: "'u db \<Rightarrow> string \<Rightarrow> 'u job_row option" where
  "select_job conn k = find (\<lambda>r. job_id r = k) (jobs conn)"

definition run_key :: "run_row \<Rightarrow> string \<times> string" where
  "run_key r = (run_date r, run_row.company r)"

section \<open>Profile loader (core/config.py)\<close>

record profile_config =
  name :: string
  db_path :: string
  enabled_companies :: "pyval list"

text \<open>
  The file system maps a path to what \<open>yaml.safe_load\<close> makes of the text stored there
  (\<open>None\<close>: no such file). The loader either rejects the text with a \<open>YAMLError\<close>, or
  returns the value of the document; the document without content loads to \<open>None\<close>.
\<close>

datatype yaml_doc = Malformed | Loaded pyval

text \<open>\<open>list(v)\<close>: a list's items, a string's characters, a dict's keys; no other value is iterable.\<close>

fun py_list :: "pyval \<Rightarrow> error + pyval list" where
  "py_list (PyList xs) = Inr xs"
| "py_list (PyStr s) = Inr (map (\<lambda>c. PyStr [c]) s)"
| "py_list (PyDict d) = Inr (map (\<lambda>(k, v). PyStr k) d)"
| "py_list v = Inl TypeError"

definition profile_path :: "string \<Rightarrow> string" where
  "profile_path profile_name = ''profiles/'' @ profile_name @ ''.yaml''"

text \<open>
  \<open>load_profile\<close>. \<open>data.get\<close> is a method of dicts only: on any other value that
  survives \<open>or {}\<close> the attribute lookup raises \<open>AttributeError\<close>. \<open>data.get(k, default)\<close>
  gives the default for a missing key only.
\<close>

definition load_profile ::
  "(pyval \<Rightarrow> string) \<Rightarrow> (string \<rightharpoonup> yaml_doc) \<Rightarrow> string \<Rightarrow> error + profile_config" where
  "load_profile repr fs profile_name =
     (case fs (profile_path profile_name) of
        None \<Rightarrow> Inl FileNotFoundError
      | Some Malformed \<Rightarrow> Inl YAMLError
      | Some (Loaded v) \<Rightarrow>
          (case py_or v (PyDict []) of
             PyDict data \<Rightarrow>
               (let p = py_str repr (case map_of data ''db_path'' of
                                       None \<Rightarrow> PyStr (''data/'' @ profile_name @ ''.sqlite'')
                                     | Some x \<Rightarrow> x)
                in case py_list (case map_of data ''enabled_companies'' of
                                   None \<Rightarrow> PyList []
                                 | Some x \<Rightarrow> x) of
                     Inl e \<Rightarrow> Inl e
                   | Inr cs \<Rightarrow> Inr \<lparr>name = profile_name, db_path = p, enabled_companies = cs\<rparr>)
           | _ \<Rightarrow> Inl AttributeError))"

section \<open>Dashboard: the browse view's pagination (app.py)\<close>

text \<open>
  Modelled from the spec: the page-number control. It is Streamlit's \<open>number_input\<close>,
  a widget of the UI library whose code is not among the sources; the spec (4.9) has it as
  ``a 1-based page-number control clamped to the valid page range'', an out-of-range page
  number being ``clamped to \<open>[1, max_page]\<close>''. \<open>requested\<close> is the page number the
  operator asks for (\<open>None\<close>: none entered, the control shows \<open>value\<close>).
\<close>

definition number_input :: "int \<Rightarrow> int \<Rightarrow> int \<Rightarrow> int option \<Rightarrow> int" where
  "number_input min_value max_value value requested =
     (case requested of None \<Rightarrow> value | Some p \<Rightarrow> max min_value (min max_value p))"

text \<open>
  The \<open>else\<close> branch of the browse view (\<open>None\<close>: no rows, ``No results.''). The view is
  the page count, the page, the rows of the page and the three numbers of the caption
  ``Showing a--b of n jobs''.
\<close>

record 'r page_view =
  max_page :: int
  page :: int
  page_rows :: "'r list"
  caption :: "int \<times> int \<times> int"

definition pagination :: "'r list \<Rightarrow> int \<Rightarrow> int option \<Rightarrow> 'r page_view option" where
  "pagination rows page_size requested =
     (if rows = [] then None
      else let n = int (length rows);
               mp = max 1 ((n - 1) div page_size + 1);
               pg = number_input 1 mp 1 requested;
               start = (pg - 1) * page_size;
               end = start + page_size
           in Some \<lparr>max_page = mp, page = pg, page_rows = py_slice rows start end,
                     caption = (start + 1, min end n, n)\<rparr>)"

section \<open>Netflix connector (connectors/netflix.py)\<close>

text \<open>
  The connector's \<open>Job\<close> has the attributes of \<open>JobLike\<close> and a description. Its
  \<open>url\<close> and \<open>description\<close> are whatever values the posting carries.
\<close>

record job = "pyval job_like" +
  description :: pyval

definition COMPANY :: string where
  "COMPANY = ''Netflix''"

definition BASE_URL :: string where
  "BASE_URL = ''https://explore.jobs.netflix.net''"

definition extract_raw_jobs :: "pyval \<Rightarrow> error + (string \<times> pyval) list list" where
  "extract_raw_jobs data =
     (case data of
        PyDict d \<Rightarrow>
          (let raw = py_or (dict_get d ''jobs'') (py_or (dict_get d ''positions'')
                      (py_or (dict_get d ''results'') (py_or (dict_get d ''data'') (PyList []))))
           in case raw of
                PyList xs \<Rightarrow> Inr (concat (map (\<lambda>j. case j of PyDict r \<Rightarrow> [r] | _ \<Rightarrow> []) xs))
              | _ \<Rightarrow> Inr [])
      | _ \<Rightarrow> Inl AttributeError)"

text \<open>
  One round of the loop of \<open>_extract_total\<close>: an \<open>int\<close> (a \<open>bool\<close> is one, \<open>True\<close>
  counting as 1) or a string of digits ends the search.
\<close>

fun total_of :: "pyval \<Rightarrow> int option" where
  "total_of (PyInt i) = Some i"
| "total_of (PyBool b) = Some (if b then 1 else 0)"
| "total_of (PyStr s) = (if isdigit s then Some (int_of_digits s) else None)"
| "total_of v = None"

fun first_total :: "(string \<times> pyval) list \<Rightarrow> string list \<Rightarrow> int option" where
  "first_total d [] = None"
| "first_total d (k # ks) =
     (case total_of (dict_get d k) of Some t \<Rightarrow> Some t | None \<Rightarrow> first_total d ks)"

definition extract_total :: "pyval \<Rightarrow> error + int option" where
  "extract_total data =
     (case data of
        PyDict d \<Rightarrow> Inr (first_total d [''count'', ''total'', ''totalCount'', ''total_count''])
      | _ \<Rightarrow> Inl AttributeError)"

definition page_signature ::
  "(pyval \<Rightarrow> string) \<Rightarrow> (string \<times> pyval) list list \<Rightarrow> nat \<Rightarrow> string list" where
  "page_signature repr raw_jobs n =
     map (\<lambda>j. py_str repr (py_or (dict_get j ''id'') (py_or (dict_get j ''jobId'')
                 (py_or (dict_get j ''positionId'') (PyStr [])))))
       (take n raw_jobs)"

text \<open>One item of a \<open>locations\<close> list: the text it contributes, if any.\<close>

definition location_item :: "(pyval \<Rightarrow> string) \<Rightarrow> pyval \<Rightarrow> string list" where
  "location_item repr item =
     (case item of
        PyStr s \<Rightarrow> (let s = strip s in if s \<noteq> [] then [s] else [])
      | PyDict d \<Rightarrow>
          (let s = py_or (dict_get d ''name'') (py_or (dict_get d ''label'')
                     (py_or (dict_get d ''location'') (py_or (dict_get d ''city'') (PyStr []))));
               s = strip (py_str repr s)
           in if s \<noteq> [] then [s] else [])
      | _ \<Rightarrow> [])"

definition extract_location :: "(pyval \<Rightarrow> string) \<Rightarrow> (string \<times> pyval) list \<Rightarrow> string" where
  "extract_location repr raw =
     (let loc = py_or (dict_get raw ''locations'') (py_or (dict_get raw ''location'')
                  (py_or (dict_get raw ''jobLocation'') (dict_get raw ''locationName'')))
      in case loc of
           PyStr s \<Rightarrow> (if strip s \<noteq> [] then strip s else ''Unspecified'')
         | PyList items \<Rightarrow>
             (let parts = concat (map (location_item repr) items)
              in if parts \<noteq> [] then join '', '' (fromkeys parts) else ''Unspecified'')
         | PyDict d \<Rightarrow>
             (let s = py_or (dict_get d ''name'') (py_or (dict_get d ''label'')
                        (py_or (dict_get d ''location'') (PyStr [])));
                  s = strip (py_str repr s)
              in if s \<noteq> [] then s else ''Unspecified'')
         | _ \<Rightarrow> ''Unspecified'')"

text \<open>
  \<open>_parse_job\<close>: \<open>Inr None\<close> is the \<open>return None\<close> of a posting without id or title.
  \<open>.strip()\<close> on a title that is not a string raises \<open>AttributeError\<close>. The first two
  definitions are its local values \<open>job_id\<close> (the native id) and the title before
  \<open>.strip()\<close>.
\<close>

definition native_id :: "(string \<times> pyval) list \<Rightarrow> pyval" where
  "native_id raw =
     py_or (dict_get raw ''id'') (py_or (dict_get raw ''jobId'') (dict_get raw ''positionId''))"

definition raw_title :: "(string \<times> pyval) list \<Rightarrow> pyval" where
  "raw_title raw = py_or (dict_get raw ''title'') (py_or (dict_get raw ''name'') (PyStr []))"

definition parse_job :: "(pyval \<Rightarrow> string) \<Rightarrow> (string \<times> pyval) list \<Rightarrow> error + job option" where
  "parse_job repr raw =
     (let jid = native_id raw
      in if jid = PyNone then Inr None
         else let job_id_str = strip (py_str repr jid)
              in case raw_title raw of
                   PyStr t \<Rightarrow>
                     (let t = strip t
                      in if t = [] then Inr None
                         else Inr (Some
                           \<lparr>company = COMPANY,
                            job_id = COMPANY @ '':'' @ job_id_str,
                            title = t,
                            url = py_or (dict_get raw ''canonicalPositionUrl'')
                                    (py_or (dict_get raw ''url'') (py_or (dict_get raw ''applyUrl'')
                                      (PyStr (BASE_URL @ ''/jobs/'' @ job_id_str)))),
                            location = Some (extract_location repr raw),
                            description = py_or (dict_get raw ''description'')
                                            (py_or (dict_get raw ''jobDescription'')
                                              (dict_get raw ''descriptionText''))\<rparr>))
                 | _ \<Rightarrow> Inl AttributeError)"

text \<open>
  The inner loop of \<open>fetch_jobs\<close>: parse the page's postings in order, appending those
  whose \<open>job_id\<close> was not seen yet.
\<close>

fun parse_page ::
  "(pyval \<Rightarrow> string) \<Rightarrow> job list \<times> string set \<Rightarrow> (string \<times> pyval) list list \<Rightarrow>
     error + job list \<times> string set" where
  "parse_page repr (ps, seen) [] = Inr (ps, seen)"
| "parse_page repr (ps, seen) (raw # rest) =
     (case parse_job repr raw of
        Inl e \<Rightarrow> Inl e
      | Inr None \<Rightarrow> parse_page repr (ps, seen) rest
      | Inr (Some j) \<Rightarrow>
          (if job_id j \<in> seen then parse_page repr (ps, seen) rest
           else parse_page repr (ps @ [j], insert (job_id j) seen) rest))"

text \<open>
  The variables of the outer loop, and \<open>requests\<close>: the \<open>(limit, start)\<close> of every page
  request issued so far, in order. The server is a function from the number of the
  request and its \<open>limit\<close> and \<open>start\<close> to the decoded response, or to the error that
  \<open>_get_jobs_page\<close> raises after its retries.
\<close>

record fetch_state =
  postings :: "job list"
  start :: int
  total_opt :: "int option"
  page :: int
  seen_ids :: "string set"
  repeat_sig_count :: int
  last_sig :: "string list option"
  requests :: "(int \<times> int) list"

type_synonym api = "nat \<Rightarrow> int \<Rightarrow> int \<Rightarrow> error + pyval"

datatype 'a loop = Break 'a | Continue 'a

text \<open>
  The stuck-pagination counter: how often in a row the page signature \<open>sig\<close> has now
  repeated.
\<close>

definition sig_repeats :: "fetch_state \<Rightarrow> string list \<Rightarrow> int" where
  "sig_repeats st sig =
     (if last_sig st \<noteq> None \<and> Some sig = last_sig st then repeat_sig_count st + 1 else 0)"

text \<open>
  The second half of the body of \<open>while True\<close>, for a page that is not empty: the
  signature guard, the parsing of the page, the advance of \<open>start\<close> and \<open>page\<close>, and
  the test against the reported total.
\<close>

definition handle_page ::
  "(pyval \<Rightarrow> string) \<Rightarrow> fetch_state \<Rightarrow> (string \<times> pyval) list list \<Rightarrow> error + fetch_state loop" where
  "handle_page repr st raw_jobs =
     (let sig = page_signature repr raw_jobs (min 10 (length raw_jobs));
          rep = sig_repeats st sig;
          st = st\<lparr>repeat_sig_count := rep, last_sig := Some sig\<rparr>
      in if rep \<ge> 3 then Inr (Break st)
         else
           case parse_page repr (postings st, seen_ids st) raw_jobs of
             Inl e \<Rightarrow> Inl e
           | Inr (ps, seen) \<Rightarrow>
               (let st = st\<lparr>postings := ps, seen_ids := seen,
                             start := start st + int (length raw_jobs),
                             page := page st + 1\<rparr>
                in if (case total_opt st of None \<Rightarrow> False | Some t \<Rightarrow> int (length ps) \<ge> t)
                   then Inr (Break st) else Inr (Continue st)))"

text \<open>
  One pass through the body of \<open>while True\<close>: the page cap, the request, the decoding of
  the response, the stop on an empty page. The request is entered in \<open>requests\<close> once its
  response is decoded.
\<close>

definition fetch_step ::
  "(pyval \<Rightarrow> string) \<Rightarrow> api \<Rightarrow> int \<Rightarrow> int option \<Rightarrow> fetch_state \<Rightarrow> error + fetch_state loop" where
  "fetch_step repr get_jobs_page page_size max_pages st =
     (if (case max_pages of None \<Rightarrow> False | Some m \<Rightarrow> page st \<ge> m) then Inr (Break st)
      else
        case get_jobs_page (length (requests st)) page_size (start st) of
          Inl e \<Rightarrow> Inl e
        | Inr data \<Rightarrow>
            (case extract_raw_jobs data of
               Inl e \<Rightarrow> Inl e
             | Inr raw_jobs \<Rightarrow>
                 (case (if total_opt st = None then extract_total data else Inr (total_opt st)) of
                    Inl e \<Rightarrow> Inl e
                  | Inr tot \<Rightarrow>
                      (let st = st\<lparr>requests := requests st @ [(page_size, start st)],
                                    total_opt := tot\<rparr>
                       in if raw_jobs = [] then Inr (Break st)
                          else handle_page repr st raw_jobs))))"

text \<open>
  The loop. It has no bound of its own when \<open>max_pages\<close> is \<open>None\<close>: the result is
  \<open>None\<close> when it runs forever.
\<close>

partial_function (option) fetch_loop ::
  "(pyval \<Rightarrow> string) \<Rightarrow> api \<Rightarrow> int \<Rightarrow> int option \<Rightarrow> fetch_state \<Rightarrow> (error + fetch_state) option" where
  "fetch_loop repr get_jobs_page page_size max_pages st =
     (case fetch_step repr get_jobs_page page_size max_pages st of
        Inl e \<Rightarrow> Some (Inl e)
      | Inr (Break st') \<Rightarrow> Some (Inr st')
      | Inr (Continue st') \<Rightarrow> fetch_loop repr get_jobs_page page_size max_pages st')"

declare fetch_loop.simps [code]

definition initial_state :: fetch_state where
  "initial_state =
     \<lparr>postings = [], start = 0, total_opt = None, page = 0, seen_ids = {},
      repeat_sig_count = 0, last_sig = None, requests = []\<rparr>"

text \<open>
  The client-side filters. \<open>" ".join\<close> raises \<open>TypeError\<close> on a description that is
  neither false nor a string.
\<close>

definition matches_any_keyword :: "job \<Rightarrow> string list \<Rightarrow> error + bool" where
  "matches_any_keyword j keywords_lc =
     (case py_or (description j) (PyStr []) of
        PyStr d \<Rightarrow>
          (let hay = lower (join '' '' [title j, (case location j of Some l \<Rightarrow> l | None \<Rightarrow> []), d])
           in Inr (list_ex (\<lambda>k. contains hay k) keywords_lc))
      | _ \<Rightarrow> Inl TypeError)"

fun filter_jobs :: "(job \<Rightarrow> error + bool) \<Rightarrow> job list \<Rightarrow> error + job list" where
  "filter_jobs keep [] = Inr []"
| "filter_jobs keep (j # js) =
     (case keep j of
        Inl e \<Rightarrow> Inl e
      | Inr b \<Rightarrow> (case filter_jobs keep js of
                    Inl e \<Rightarrow> Inl e
                  | Inr ks \<Rightarrow> Inr (if b then j # ks else ks)))"

definition clean_terms :: "string list option \<Rightarrow> string list" where
  "clean_terms terms =
     (case terms of
        None \<Rightarrow> []
      | Some ts \<Rightarrow> map (\<lambda>k. lower (strip k)) (filter (\<lambda>k. k \<noteq> [] \<and> strip k \<noteq> []) ts))"

definition apply_filters ::
  "string list option \<Rightarrow> string list option \<Rightarrow> job list \<Rightarrow> error + job list" where
  "apply_filters keywords location_contains ps =
     (case (let kw = clean_terms keywords
            in if kw \<noteq> [] then filter_jobs (\<lambda>j. matches_any_keyword j kw) ps else Inr ps) of
        Inl e \<Rightarrow> Inl e
      | Inr ps \<Rightarrow>
          (let loc_terms = clean_terms location_contains
           in if loc_terms \<noteq> []
              then Inr (filter (\<lambda>j. list_ex (\<lambda>t. contains
                          (lower (case location j of Some l \<Rightarrow> l | None \<Rightarrow> [])) t) loc_terms) ps)
              else Inr ps))"

text \<open>
  \<open>fetch_jobs\<close>: the jobs returned, together with the page requests that were issued.
\<close>

definition fetch_jobs ::
  "(pyval \<Rightarrow> string) \<Rightarrow> api \<Rightarrow> int \<Rightarrow> int option \<Rightarrow> string list option \<Rightarrow> string list option \<Rightarrow>
     (error + job list \<times> (int \<times> int) list) option" where
  "fetch_jobs repr get_jobs_page page_size max_pages keywords location_contains =
     (case fetch_loop repr get_jobs_page page_size max_pages initial_state of
        None \<Rightarrow> None
      | Some (Inl e) \<Rightarrow> Some (Inl e)
      | Some (Inr st) \<Rightarrow>
          (case apply_filters keywords location_contains (postings st) of
             Inl e \<Rightarrow> Some (Inl e)
           | Inr ps \<Rightarrow> Some (Inr (ps, requests st))))"

text \<open>
  The pagination rule in the spec's words: the first request starts at 0, and each later
  one at the previous start advanced by the number of records that the previous response
  actually returned.
\<close>

definition returned_count :: "error + pyval \<Rightarrow> int" where
  "returned_count response =
     (case response of
        Inl e \<Rightarrow> 0
      | Inr data \<Rightarrow> (case extract_raw_jobs data of Inl e \<Rightarrow> 0 | Inr raw_jobs \<Rightarrow> int (length raw_jobs)))"

fun nth_start :: "api \<Rightarrow> int \<Rightarrow> nat \<Rightarrow> int" where
  "nth_start get_jobs_page page_size 0 = 0"
| "nth_start get_jobs_page page_size (Suc k) =
     nth_start get_jobs_page page_size k
       + returned_count (get_jobs_page k page_size (nth_start get_jobs_page page_size k))"

text \<open>
  Simulated servers. \<open>capped_api recs cap\<close> serves the records \<open>recs\<close> from the
  requested \<open>start\<close>, at most \<open>cap\<close> per response whatever the \<open>limit\<close>, and reports
  their number as \<open>count\<close>. \<open>stuck_api recs\<close> ignores \<open>start\<close>: every response is the
  same page \<open>recs\<close>, with no count. \<open>sim_records n\<close> are \<open>n\<close> well-formed postings with
  the ids 1 to \<open>n\<close>; \<open>messy_records\<close> are a posting without id, one with a blank title
  and one without location.
\<close>

definition sim_records :: "nat \<Rightarrow> (string \<times> pyval) list list" where
  "sim_records n =
     map (\<lambda>i. [(''id'', PyInt (int i)), (''title'', PyStr (''Job '' @ str_of_nat i))]) [1..<Suc n]"

definition messy_records :: "(string \<times> pyval) list list" where
  "messy_records =
     [[(''title'', PyStr ''No id'')],
      [(''id'', PyInt 5), (''title'', PyStr ''   '')],
      [(''positionId'', PyStr ''7''), (''name'', PyStr '' Data Engineer ''),
       (''locations'', PyList [])]]"

definition capped_api :: "(string \<times> pyval) list list \<Rightarrow> nat \<Rightarrow> api" where
  "capped_api recs cap call limit start_at =
     Inr (PyDict [(''jobs'', PyList (map PyDict (take (min cap (nat limit)) (drop (nat start_at) recs)))),
                  (''count'', PyInt (int (length recs)))])"

definition stuck_api :: "(string \<times> pyval) list list \<Rightarrow> api" where
  "stuck_api recs call limit start_at = Inr (PyDict [(''jobs'', PyList (map PyDict recs))])"

text \<open>
  A server whose every response decodes to a page with the signature \<open>sg\<close>, made of
  postings that parse without an error.
\<close>

definition same_signature :: "(pyval \<Rightarrow> string) \<Rightarrow> api \<Rightarrow> string list \<Rightarrow> bool" where
  "same_signature repr get_jobs_page sg \<longleftrightarrow>
     (\<forall>call limit start_at. \<exists>data raw_jobs.
        get_jobs_page call limit start_at = Inr data \<and> extract_raw_jobs data = Inr raw_jobs
        \<and> page_signature repr raw_jobs (min 10 (length raw_jobs)) = sg
        \<and> (\<forall>raw\<in>set raw_jobs. \<forall>e. parse_job repr raw \<noteq> Inl e))"

section \<open>COMSOL connector: heading locations (connectors/comsol.py)\<close>

definition country_mapping :: "(string \<times> string) list" where
  "country_mapping =
    [(''usa'', ''US''),
     (''us'', ''US''),
     (''united states'', ''US''),
     (''united states of america'', ''US''),
     (''united kingdom'', ''GB''),
     (''uk'', ''GB''),
     (''great britain'', ''GB''),
     (''china'', ''CN''),
     (''germany'', ''DE''),
     (''france'', ''FR''),
     (''italy'', ''IT''),
     (''finland'', ''FI''),
     (''sweden'', ''SE''),
     (''india'', ''IN'')]"

text \<open>
  The lookup key of \<open>_country_to_iso2\<close>: the trimmed text with runs of spaces collapsed,
  periods removed, case-folded.
\<close>

definition country_key :: "string \<Rightarrow> string" where
  "country_key country_raw =
     (let c = strip country_raw;
          c_norm = collapse_spaces c;
          c_norm = filter (\<lambda>x. x \<noteq> CHR ''.'') c_norm
      in casefold c_norm)"

definition country_to_iso2 :: "string \<Rightarrow> string" where
  "country_to_iso2 country_raw =
     (let c = strip country_raw
      in case map_of country_mapping (country_key country_raw) of
           Some code \<Rightarrow> (if code \<noteq> [] then code else upper (strip c))
         | None \<Rightarrow> upper (strip c))"

text \<open>The comma-separated parts of a heading, trimmed, the empty ones dropped.\<close>

definition heading_parts :: "string \<Rightarrow> string list" where
  "heading_parts heading = map strip (filter (\<lambda>p. strip p \<noteq> []) (split CHR '','' heading))"

text \<open>
  \<open>_normalize_heading_location\<close>. \<open>normalize_location\<close> (module \<open>utils.location\<close>) is
  not among the sources: it is the parameter \<open>normalize_location\<close>, called with
  \<open>(country, state, city)\<close>.
\<close>

definition normalize_heading_location ::
  "(string \<Rightarrow> string \<Rightarrow> string \<Rightarrow> string option) \<Rightarrow> string \<Rightarrow> string option" where
  "normalize_heading_location normalize_location heading =
     (let parts = heading_parts heading
      in if length parts < 2 then None
         else let city = parts ! 0
              in if length parts = 2
                 then normalize_location (country_to_iso2 (parts ! 1)) [] city
                 else normalize_location (country_to_iso2 (parts ! 2)) (parts ! 1) city)"

section \<open>Properties of the storage layer\<close>

subsection \<open>Rows and keys under one upsert statement\<close>

lemma find_app: "find P (xs @ ys) = (case find P xs of None \<Rightarrow> find P ys | Some x \<Rightarrow> Some x)"
  by (induction xs) auto

lemma find_map_upd:
  "(\<And>r. job_id (f r) = job_id r) \<Longrightarrow>
   find (\<lambda>r. job_id r = k) (map (\<lambda>r. if job_id r = i then f r else r) rows) =
     (if k = i then map_option f (find (\<lambda>r. job_id r = k) rows) else find (\<lambda>r. job_id r = k) rows)"
  by (induction rows) auto

lemma find_job_None: "find (\<lambda>r. job_id r = k) rows = None \<longleftrightarrow> k \<notin> set (map job_id rows)"
  by (auto simp: find_None_iff)

lemma map_job_id_upsert_job:
  "map job_id (upsert_job today rows j) =
     (if job_id j \<in> set (map job_id rows) then map job_id rows else map job_id rows @ [job_id j])"
  by (auto simp: upsert_job_def)

lemma upsert_job_ids:
  "set (map job_id (upsert_job today rows j)) = insert (job_id j) (set (map job_id rows))"
  unfolding map_job_id_upsert_job by auto

lemma upsert_job_distinct:
  "distinct (map job_id rows) \<Longrightarrow> distinct (map job_id (upsert_job today rows j))"
  unfolding map_job_id_upsert_job by simp

lemma foldl_upsert_distinct:
  "distinct (map job_id rows) \<Longrightarrow> distinct (map job_id (foldl (upsert_job today) rows js))"
  by (induction js arbitrary: rows) (simp_all add: upsert_job_distinct)

lemma foldl_upsert_ids:
  "set (map job_id (foldl (upsert_job today) rows js)) = set (map job_id rows) \<union> set (map job_id js)"
  by (induction js arbitrary: rows) (simp_all add: upsert_job_ids del: set_map)

lemma find_upsert_job_same:
  "find (\<lambda>r. job_id r = job_id j) (upsert_job today rows j) =
    Some (case find (\<lambda>r. job_id r = job_id j) rows of
       None \<Rightarrow> \<lparr>company = job_like.company j, job_id = job_id j, title = title j,
                     url = url j, location = location j,
                     first_seen = today, last_seen = today\<rparr>
     | Some r \<Rightarrow> r\<lparr>title := title j, url := url j,
                             location := (case location j of None \<Rightarrow> location r | Some l \<Rightarrow> Some l),
                             last_seen := today\<rparr>)"
proof (cases "job_id j \<in> set (map job_id rows)")
  case True
  then obtain r where r: "find (\<lambda>r. job_id r = job_id j) rows = Some r"
    using find_job_None [of "job_id j" rows] by (cases "find (\<lambda>r. job_id r = job_id j) rows") auto
  from True show ?thesis
    by (simp add: upsert_job_def find_map_upd r coalesce_def del: set_map)
next
  case False
  then have "find (\<lambda>r. job_id r = job_id j) rows = None"
    by (simp only: find_job_None not_False_eq_True)
  with False show ?thesis
    by (simp add: upsert_job_def find_app del: set_map)
qed

lemma find_upsert_job_other:
  "k \<noteq> job_id j \<Longrightarrow> find (\<lambda>r. job_id r = k) (upsert_job today rows j) = find (\<lambda>r. job_id r = k) rows"
  by (auto simp: upsert_job_def find_map_upd find_app split: option.splits)

lemma foldl_upsert_other:
  "k \<notin> set (map job_id js) \<Longrightarrow>
     find (\<lambda>r. job_id r = k) (foldl (upsert_job today) rows js) = find (\<lambda>r. job_id r = k) rows"
proof (induction js arbitrary: rows)
  case Nil
  then show ?case by simp
next
  case (Cons j js)
  then have "k \<noteq> job_id j" "k \<notin> set (map job_id js)" by auto
  with Cons.IH [of "upsert_job today rows j"] show ?case
    by (simp add: find_upsert_job_other del: set_map)
qed

lemma length_upsert_job:
  "length (upsert_job today rows j) = (if job_id j \<in> set (map job_id rows) then length rows else Suc (length rows))"
  by (simp add: upsert_job_def)

lemma map_upd_absent:
  "k \<notin> set (map job_id rows) \<Longrightarrow> map (\<lambda>r. if job_id r = k then f r else r) rows = rows"
  by (induction rows) auto

lemma filter_id_absent:
  "k \<notin> set (map job_id rows) \<Longrightarrow> filter (\<lambda>r. job_id r = k) rows = []"
  by (induction rows) auto

lemma upsert_job_idem:
  "upsert_job today (upsert_job today rows j) j = upsert_job today rows j"
proof (cases "job_id j \<in> set (map job_id rows)")
  case True
  have in': "job_id j \<in> set (map job_id (upsert_job today rows j))"
    unfolding upsert_job_ids by simp
  show ?thesis
    apply (subst upsert_job_def [of today "upsert_job today rows j"])
    apply (simp only: in' if_True)
    using True
    apply (simp add: upsert_job_def coalesce_def o_def del: set_map split: option.splits)
    done
next
  case False
  have in': "job_id j \<in> set (map job_id (upsert_job today rows j))"
    unfolding upsert_job_ids by simp
  show ?thesis
    apply (subst upsert_job_def [of today "upsert_job today rows j"])
    apply (simp only: in' if_True)
    using False
    apply (simp add: upsert_job_def map_upd_absent coalesce_def del: set_map split: option.splits)
    done
qed

lemma filter_id_upsert_job:
  "filter (\<lambda>r. job_id r = job_id j) (upsert_job today rows j) =
     (if job_id j \<in> set (map job_id rows)
      then map (\<lambda>r. r\<lparr>title := title j, url := url j,
                        location := coalesce (location j) (location r), last_seen := today\<rparr>)
             (filter (\<lambda>r. job_id r = job_id j) rows)
      else [\<lparr>company = job_like.company j, job_id = job_id j, title = title j,
                     url = url j, location = location j,
                     first_seen = today, last_seen = today\<rparr>])"
  by (auto simp: upsert_job_def filter_map o_def filter_id_absent simp del: set_map
      intro!: map_cong filter_cong)

lemma distinct_filter_id:
  "distinct (map job_id rows) \<Longrightarrow> k \<in> set (map job_id rows) \<Longrightarrow>
     \<exists>r. filter (\<lambda>r. job_id r = k) rows = [r] \<and> r \<in> set rows"
proof (induction rows)
  case Nil
  then show ?case by simp
next
  case (Cons a rows)
  show ?case
  proof (cases "job_id a = k")
    case True
    with Cons.prems have "k \<notin> set (map job_id rows)" by auto
    then have "filter (\<lambda>r. job_id r = k) rows = []"
      by (auto simp: filter_empty_conv)
    with True show ?thesis by simp
  next
    case False
    with Cons show ?thesis by auto
  qed
qed

lemma upsert_job_origin:
  "r' \<in> set (upsert_job today rows j) \<Longrightarrow>
     (\<exists>r\<in>set rows. job_id r = job_id r' \<and> first_seen r' = first_seen r)
     \<or> (job_id r' \<notin> set (map job_id rows) \<and> job_id r' = job_id j \<and> first_seen r' = today)"
  by (auto simp: upsert_job_def split: if_splits)

lemma foldl_upsert_origin:
  "r' \<in> set (foldl (upsert_job today) rows js) \<Longrightarrow>
     (\<exists>r\<in>set rows. job_id r = job_id r' \<and> first_seen r' = first_seen r)
     \<or> (job_id r' \<notin> set (map job_id rows) \<and> job_id r' \<in> set (map job_id js) \<and> first_seen r' = today)"
proof (induction js arbitrary: rows)
  case Nil
  then show ?case by auto
next
  case (Cons j js)
  from Cons.IH [of "upsert_job today rows j"] Cons.prems
  consider r where "r \<in> set (upsert_job today rows j)" "job_id r = job_id r'" "first_seen r' = first_seen r"
    | "job_id r' \<notin> set (map job_id (upsert_job today rows j))" "job_id r' \<in> set (map job_id js)"
       "first_seen r' = today"
    by auto
  then show ?case
  proof cases
    case 1
    from upsert_job_origin [OF 1(1)] 1(2,3) show ?thesis
      by auto
  next
    case 2
    then show ?thesis
      unfolding upsert_job_ids by auto
  qed
qed

subsection \<open>The \<open>runs\<close> table\<close>

lemma run_key_upd [simp]:
  "run_key (r\<lparr>ran_at := a, total_jobs := t, new_jobs := n\<rparr>) = run_key r"
  by (simp add: run_key_def)

lemma run_key_mk [simp]:
  "run_key \<lparr>run_date = d, company = c, ran_at = a, total_jobs = t, new_jobs = n\<rparr> = (d, c)"
  by (simp add: run_key_def)

lemma record_run_runs:
  "runs (record_run today now conn c t n) =
     (if (today, c) \<in> set (map run_key (runs conn))
      then map (\<lambda>r. if run_key r = (today, c)
                      then r\<lparr>ran_at := now, total_jobs := t, new_jobs := n\<rparr> else r) (runs conn)
      else runs conn @ [\<lparr>run_date = today, company = c, ran_at = now, total_jobs = t, new_jobs = n\<rparr>])"
  by (simp add: record_run_def run_key_def [abs_def])

lemma record_run_jobs: "jobs (record_run today now conn c t n) = jobs conn"
  by (simp add: record_run_def)

lemma run_keys_record_run:
  "map run_key (runs (record_run today now conn c t n)) =
     (if (today, c) \<in> set (map run_key (runs conn)) then map run_key (runs conn)
      else map run_key (runs conn) @ [(today, c)])"
  by (simp add: record_run_runs o_def if_distrib [of run_key] cong: if_cong del: set_map)

lemma filter_key_absent:
  "k \<notin> set (map run_key rs) \<Longrightarrow> filter (\<lambda>r. run_key r = k) rs = []"
  by (induction rs) auto

lemma filter_key_distinct:
  "distinct (map run_key rs) \<Longrightarrow> k \<in> set (map run_key rs) \<Longrightarrow>
     \<exists>r. filter (\<lambda>r. run_key r = k) rs = [r]"
proof (induction rs)
  case Nil
  then show ?case by simp
next
  case (Cons a rs)
  show ?case
  proof (cases "run_key a = k")
    case True
    with Cons.prems have "k \<notin> set (map run_key rs)" by auto
    then have "filter (\<lambda>r. run_key r = k) rs = []" by (rule filter_key_absent)
    with True show ?thesis by simp
  next
    case False
    with Cons show ?thesis by auto
  qed
qed

lemma filter_map_upd_key:
  "(\<And>r. run_key (f r) = run_key r) \<Longrightarrow>
   filter (\<lambda>r. run_key r = k) (map (\<lambda>r. if run_key r = k then f r else r) rs) =
     map f (filter (\<lambda>r. run_key r = k) rs)"
  by (induction rs) auto

lemma filter_map_upd_other:
  "(\<And>r. run_key (f r) = run_key r) \<Longrightarrow>
   filter (\<lambda>r. run_key r \<noteq> k) (map (\<lambda>r. if run_key r = k then f r else r) rs) =
     filter (\<lambda>r. run_key r \<noteq> k) rs"
  by (induction rs) auto

lemma filter_key_record_run:
  assumes "distinct (map run_key (runs conn))"
  shows "filter (\<lambda>r. run_key r = (today, c)) (runs (record_run today now conn c t n)) =
     [\<lparr>run_date = today, company = c, ran_at = now, total_jobs = t, new_jobs = n\<rparr>]"
proof (cases "(today, c) \<in> set (map run_key (runs conn))")
  case True
  from filter_key_distinct [OF assms True] obtain r where
    r: "filter (\<lambda>r. run_key r = (today, c)) (runs conn) = [r]" by blast
  then have "r \<in> set (filter (\<lambda>r. run_key r = (today, c)) (runs conn))" by simp
  then have k: "run_date r = today" "run_row.company r = c" by (simp_all add: run_key_def)
  have "filter (\<lambda>r. run_key r = (today, c))
          (map (\<lambda>r. if run_key r = (today, c)
                      then r\<lparr>ran_at := now, total_jobs := t, new_jobs := n\<rparr> else r) (runs conn))
        = map (\<lambda>r. r\<lparr>ran_at := now, total_jobs := t, new_jobs := n\<rparr>)
            (filter (\<lambda>r. run_key r = (today, c)) (runs conn))"
    by (rule filter_map_upd_key) simp
  with True r k show ?thesis
    by (simp add: record_run_runs del: set_map)
next
  case False
  then show ?thesis
    by (simp add: record_run_runs filter_key_absent del: set_map)
qed

lemma filter_other_record_run:
  "filter (\<lambda>r. run_key r \<noteq> (today, c)) (runs (record_run today now conn c t n)) =
   filter (\<lambda>r. run_key r \<noteq> (today, c)) (runs conn)"
  by (simp add: record_run_runs filter_map_upd_other del: set_map)

lemma get_last_run_None:
  "get_last_run conn c = None \<longleftrightarrow> c \<notin> set (map run_row.company (runs conn))"
proof -
  have "get_last_run conn c = None \<longleftrightarrow>
      sort_key run_date (filter (\<lambda>r. run_row.company r = c) (runs conn)) = []"
    by (simp add: get_last_run_def split: list.splits)
  also have "\<dots> \<longleftrightarrow> filter (\<lambda>r. run_row.company r = c) (runs conn) = []"
    by (metis length_sort length_0_conv)
  also have "\<dots> \<longleftrightarrow> c \<notin> set (map run_row.company (runs conn))"
    by (auto simp: filter_empty_conv)
  finally show ?thesis .
qed

lemma get_last_run_Some:
  assumes "get_last_run conn c = Some (d, a, t, n)"
  shows "\<lparr>run_date = d, company = c, ran_at = a, total_jobs = t, new_jobs = n\<rparr> \<in> set (runs conn)
     \<and> (\<forall>r\<in>set (runs conn). run_row.company r = c \<longrightarrow> run_date r \<le> d)"
proof -
  let ?xs = "sort_key run_date (filter (\<lambda>r. run_row.company r = c) (runs conn))"
  from assms obtain r rest where rv: "rev ?xs = r # rest"
    and r: "run_date r = d" "ran_at r = a" "total_jobs r = t" "new_jobs r = n"
    by (auto simp: get_last_run_def split: list.splits)
  from rv have xs: "?xs = rev rest @ [r]" by (metis rev_rev_ident rev.simps(2))
  have "r \<in> set ?xs" unfolding xs by simp
  then have rin: "r \<in> set (runs conn)" and rc: "run_row.company r = c" by auto
  have "sorted (map run_date ?xs)" by (rule sorted_sort_key)
  then have le: "\<forall>x\<in>set (rev rest). run_date x \<le> run_date r"
    unfolding xs by (auto simp: sorted_append)
  have "run_date x \<le> d" if "x \<in> set (runs conn)" "run_row.company x = c" for x
  proof -
    from that have "x \<in> set ?xs" by simp
    then have "x = r \<or> x \<in> set (rev rest)" unfolding xs by auto
    with le r(1) show ?thesis by auto
  qed
  moreover have "r = \<lparr>run_date = d, company = c, ran_at = a, total_jobs = t, new_jobs = n\<rparr>"
    using r rc by simp
  ultimately show ?thesis using rin by blast
qed

lemma record_run_twice_row:
  assumes pk: "distinct (map run_key (runs conn))"
  shows "filter (\<lambda>r. run_key r = (today, c))
           (runs (record_run today now2 (record_run today now1 conn c t1 n1) c t2 n2)) =
         [\<lparr>run_date = today, company = c, ran_at = now2, total_jobs = t2, new_jobs = n2\<rparr>]"
proof -
  have "distinct (map run_key (runs (record_run today now1 conn c t1 n1)))"
    using pk by (simp add: run_keys_record_run del: set_map)
  then show ?thesis by (rule filter_key_record_run)
qed

lemma record_run_twice_length:
  "length (runs (record_run today now2 (record_run today now1 conn c t1 n1) c t2 n2)) =
   length (runs (record_run today now1 conn c t1 n1))"
proof -
  have "(today, c) \<in> set (map run_key (runs (record_run today now1 conn c t1 n1)))"
    by (simp add: run_keys_record_run del: set_map)
  then show ?thesis
    by (simp add: record_run_runs [of today now2] del: set_map)
qed

lemma record_run_row_dates:
  assumes "r \<in> set (runs (record_run today now conn c t n))"
  shows "run_date r = today \<or> r \<in> set (runs conn)"
proof (cases "(today, c) \<in> set (map run_key (runs conn))")
  case True
  with assms obtain x where x: "x \<in> set (runs conn)"
    and r: "r = (if run_key x = (today, c) then x\<lparr>ran_at := now, total_jobs := t, new_jobs := n\<rparr> else x)"
    unfolding record_run_runs by (simp only: if_True set_map) blast
  show ?thesis
  proof (cases "run_key x = (today, c)")
    case True
    then have "run_date x = today" by (simp add: run_key_def)
    with r True show ?thesis by simp
  next
    case False
    with r x show ?thesis by simp
  qed
next
  case False
  with assms have "r \<in> set (runs conn) \<or>
      r = \<lparr>run_date = today, company = c, ran_at = now, total_jobs = t, new_jobs = n\<rparr>"
    by (auto simp: record_run_runs simp del: set_map)
  then show ?thesis
  proof
    assume "r \<in> set (runs conn)"
    then show ?thesis ..
  next
    assume "r = \<lparr>run_date = today, company = c, ran_at = now, total_jobs = t, new_jobs = n\<rparr>"
    then have "run_date r = today" by (simp only: run_row.select_convs)
    then show ?thesis ..
  qed
qed

lemma get_last_run_after:
  assumes pk: "distinct (map run_key (runs conn))"
    and latest: "\<forall>r\<in>set (runs conn). run_row.company r = c \<longrightarrow> run_date r \<le> today"
  shows "get_last_run (record_run today now conn c t n) c = Some (today, now, t, n)"
proof -
  let ?conn' = "record_run today now conn c t n"
  let ?row = "\<lparr>run_date = today, company = c, ran_at = now, total_jobs = t, new_jobs = n\<rparr>"
  have row: "filter (\<lambda>r. run_key r = (today, c)) (runs ?conn') = [?row]"
    using pk by (rule filter_key_record_run)
  then have "?row \<in> set (filter (\<lambda>r. run_key r = (today, c)) (runs ?conn'))" by simp
  then have rin: "?row \<in> set (runs ?conn')" by simp
  then have "c \<in> set (map run_row.company (runs ?conn'))" by force
  then obtain d a t' n' where g: "get_last_run ?conn' c = Some (d, a, t', n')"
    using get_last_run_None [of ?conn' c] by (cases "get_last_run ?conn' c") auto
  from get_last_run_Some [OF g]
  have r': "\<lparr>run_date = d, company = c, ran_at = a, total_jobs = t', new_jobs = n'\<rparr> \<in> set (runs ?conn')"
    and mx: "\<forall>r\<in>set (runs ?conn'). run_row.company r = c \<longrightarrow> run_date r \<le> d" by auto
  from mx rin have "today \<le> d" by force
  have "run_date r \<le> today" if "r \<in> set (runs ?conn')" "run_row.company r = c" for r
    using record_run_row_dates [OF that(1)] that(2) latest by auto
  from this [OF r'] have "d \<le> today" by simp
  with \<open>today \<le> d\<close> have "d = today" by simp
  with r' have "\<lparr>run_date = d, company = c, ran_at = a, total_jobs = t', new_jobs = n'\<rparr> \<in>
      set (filter (\<lambda>r. run_key r = (today, c)) (runs ?conn'))" by simp
  then have "a = now \<and> t' = t \<and> n' = n" unfolding row by simp
  with g \<open>d = today\<close> show ?thesis by simp
qed

lemma new_today_two_days:
  fixes conn :: "'u db" and b1 b2 :: "('u, 'z) job_like_scheme list"
  assumes days: "D1 \<noteq> D2"
    and old: "\<forall>r\<in>set (jobs conn). first_seen r \<noteq> D2"
  defines "conn2 \<equiv> upsert_jobs D2 (upsert_jobs D1 conn b1) b2"
  shows "get_new_today D2 conn2 c =
     map (\<lambda>r. (title r, url r, first_seen r, last_seen r))
       (sort_key title
          (filter (\<lambda>r. job_like.company r = c \<and> job_id r \<in> set (map job_id b2)
                       \<and> job_id r \<notin> set (map job_id b1) \<and> job_id r \<notin> set (map job_id (jobs conn)))
             (jobs conn2)))"
proof -
  let ?rows1 = "foldl (upsert_job D1) (jobs conn) b1"
  have rows2: "jobs conn2 = foldl (upsert_job D2) ?rows1 b2"
    by (simp add: conn2_def upsert_jobs_def)
  have ids1: "set (map job_id ?rows1) = set (map job_id (jobs conn)) \<union> set (map job_id b1)"
    by (rule foldl_upsert_ids)
  have old1: "first_seen r \<noteq> D2" if "r \<in> set ?rows1" for r
    using foldl_upsert_origin [OF that] old days by auto
  have key: "first_seen r = D2 \<longleftrightarrow>
      job_id r \<in> set (map job_id b2) \<and> job_id r \<notin> set (map job_id b1)
        \<and> job_id r \<notin> set (map job_id (jobs conn))"
    if "r \<in> set (jobs conn2)" for r
  proof -
    from that have "r \<in> set (foldl (upsert_job D2) ?rows1 b2)" by (simp only: rows2)
    from foldl_upsert_origin [OF this]
    consider r0 where "r0 \<in> set ?rows1" "job_id r0 = job_id r" "first_seen r = first_seen r0"
      | "job_id r \<notin> set (map job_id ?rows1)" "job_id r \<in> set (map job_id b2)" "first_seen r = D2"
      by blast
    then show ?thesis
    proof cases
      case 1
      from old1 [OF 1(1)] 1(3) have "first_seen r \<noteq> D2" by simp
      moreover from 1(1,2) have "job_id r \<in> set (map job_id ?rows1)"
        unfolding set_map by (metis imageI)
      ultimately show ?thesis unfolding ids1 by blast
    next
      case 2
      then show ?thesis unfolding ids1 by blast
    qed
  qed
  have "filter (\<lambda>r. job_like.company r = c \<and> first_seen r = D2) (jobs conn2) =
        filter (\<lambda>r. job_like.company r = c \<and> job_id r \<in> set (map job_id b2)
                       \<and> job_id r \<notin> set (map job_id b1) \<and> job_id r \<notin> set (map job_id (jobs conn)))
             (jobs conn2)"
    by (rule filter_cong) (auto simp only: key)
  then show ?thesis
    by (simp only: get_new_today_def)
qed


subsection \<open>Claims about the storage layer\<close>

text \<open>
  Claim C1. \<open>upsert_jobs\<close> starts from the stored table: the empty batch leaves the
  database as it is, a batch never touches the \<open>runs\<close> table nor the row of a
  \<open>job_id\<close> it does not contain, and each job of a batch is upserted against the table
  left by the jobs before it. A \<open>job_id\<close> not stored yet becomes one new row, appended,
  with \<open>first_seen = last_seen = today\<close>. For a \<open>job_id\<close> already stored, by this call
  or by an earlier one, the row keeps its company and \<open>first_seen\<close>, takes the job's
  title and url and \<open>last_seen = today\<close>, and takes the job's location only when the job
  has one: an absent incoming location leaves a known stored location as it is. Rows of
  other job ids are untouched.
\<close>

theorem upsert_jobs_each_job:
  fixes conn :: "'u db" and js :: "('u, 'z) job_like_scheme list" and j today
  defines "before \<equiv> upsert_jobs today conn js"
  defines "after \<equiv> upsert_jobs today conn (js @ [j])"
  defines "single \<equiv> upsert_jobs today conn [j]"
  shows "(select_job before (job_id j) = None \<longrightarrow>
            select_job after (job_id j) =
              Some \<lparr>company = job_like.company j, job_id = job_id j, title = title j,
                    url = url j, location = location j, first_seen = today, last_seen = today\<rparr>
            \<and> length (jobs after) = Suc (length (jobs before)))
       \<and> (\<forall>r. select_job before (job_id j) = Some r \<longrightarrow>
            select_job after (job_id j) =
              Some (r\<lparr>title := title j, url := url j,
                      location := (case location j of None \<Rightarrow> location r | Some l \<Rightarrow> Some l),
                      last_seen := today\<rparr>)
            \<and> length (jobs after) = length (jobs before))
       \<and> (\<forall>r l. select_job before (job_id j) = Some r \<and> location j = None \<and> location r = Some l \<longrightarrow>
            (\<exists>r'. select_job after (job_id j) = Some r' \<and> location r' = Some l))
       \<and> (\<forall>k. k \<noteq> job_id j \<longrightarrow> select_job after k = select_job before k)
       \<and> upsert_jobs today conn [] = conn
       \<and> after = upsert_jobs today before [j]
       \<and> runs before = runs conn
       \<and> (\<forall>k. k \<notin> set (map job_id js) \<longrightarrow> select_job before k = select_job conn k)
       \<and> (select_job conn (job_id j) = None \<longrightarrow>
            select_job single (job_id j) =
              Some \<lparr>company = job_like.company j, job_id = job_id j, title = title j,
                    url = url j, location = location j, first_seen = today, last_seen = today\<rparr>
            \<and> jobs single = jobs conn @
                [\<lparr>company = job_like.company j, job_id = job_id j, title = title j,
                  url = url j, location = location j, first_seen = today, last_seen = today\<rparr>])
       \<and> (\<forall>r. select_job conn (job_id j) = Some r \<longrightarrow>
            select_job single (job_id j) =
              Some (r\<lparr>title := title j, url := url j,
                      location := (case location j of None \<Rightarrow> location r | Some l \<Rightarrow> Some l),
                      last_seen := today\<rparr>)
            \<and> length (jobs single) = length (jobs conn))
       \<and> (\<forall>r l. select_job conn (job_id j) = Some r \<and> location j = None \<and> location r = Some l \<longrightarrow>
            (\<exists>r'. select_job single (job_id j) = Some r' \<and> location r' = Some l
                  \<and> first_seen r' = first_seen r \<and> last_seen r' = today))
       \<and> (\<forall>k. k \<noteq> job_id j \<longrightarrow> select_job single k = select_job conn k)"
proof -
  have step: "jobs after = upsert_job today (jobs before) j"
    by (simp add: before_def after_def upsert_jobs_def)
  have same: "select_job after (job_id j) =
      Some (case select_job before (job_id j) of
         None \<Rightarrow> \<lparr>company = job_like.company j, job_id = job_id j, title = title j,
                     url = url j, location = location j, first_seen = today, last_seen = today\<rparr>
       | Some r \<Rightarrow> r\<lparr>title := title j, url := url j,
                      location := (case location j of None \<Rightarrow> location r | Some l \<Rightarrow> Some l),
                      last_seen := today\<rparr>)"
    unfolding select_job_def step by (rule find_upsert_job_same)
  have len: "length (jobs after) =
      (if select_job before (job_id j) = None then Suc (length (jobs before)) else length (jobs before))"
    unfolding select_job_def step find_job_None by (simp add: length_upsert_job)
  have other: "select_job after k = select_job before k" if "k \<noteq> job_id j" for k
    unfolding select_job_def step using that by (rule find_upsert_job_other)
  have part1: "(select_job before (job_id j) = None \<longrightarrow>
            select_job after (job_id j) =
              Some \<lparr>company = job_like.company j, job_id = job_id j, title = title j,
                    url = url j, location = location j, first_seen = today, last_seen = today\<rparr>
            \<and> length (jobs after) = Suc (length (jobs before)))
       \<and> (\<forall>r. select_job before (job_id j) = Some r \<longrightarrow>
            select_job after (job_id j) =
              Some (r\<lparr>title := title j, url := url j,
                      location := (case location j of None \<Rightarrow> location r | Some l \<Rightarrow> Some l),
                      last_seen := today\<rparr>)
            \<and> length (jobs after) = length (jobs before))
       \<and> (\<forall>r l. select_job before (job_id j) = Some r \<and> location j = None \<and> location r = Some l \<longrightarrow>
            (\<exists>r'. select_job after (job_id j) = Some r' \<and> location r' = Some l))
       \<and> (\<forall>k. k \<noteq> job_id j \<longrightarrow> select_job after k = select_job before k)"
    by (auto simp: same len other)
  have empty: "upsert_jobs today conn [] = conn"
    by (simp add: upsert_jobs_def)
  have seq: "after = upsert_jobs today before [j]"
    by (simp add: before_def after_def upsert_jobs_def)
  have runs: "runs before = runs conn"
    by (simp add: before_def upsert_jobs_def)
  have untouched: "\<forall>k. k \<notin> set (map job_id js) \<longrightarrow> select_job before k = select_job conn k"
    unfolding before_def select_job_def
    by (simp add: upsert_jobs_def foldl_upsert_other del: set_map)
  have srows: "jobs single = upsert_job today (jobs conn) j"
    by (simp add: single_def upsert_jobs_def)
  have ssame: "select_job single (job_id j) =
      Some (case select_job conn (job_id j) of
         None \<Rightarrow> \<lparr>company = job_like.company j, job_id = job_id j, title = title j,
                     url = url j, location = location j, first_seen = today, last_seen = today\<rparr>
       | Some r \<Rightarrow> r\<lparr>title := title j, url := url j,
                      location := (case location j of None \<Rightarrow> location r | Some l \<Rightarrow> Some l),
                      last_seen := today\<rparr>)"
    unfolding select_job_def srows by (rule find_upsert_job_same)
  have sapp: "jobs single = jobs conn @
                [\<lparr>company = job_like.company j, job_id = job_id j, title = title j,
                  url = url j, location = location j, first_seen = today, last_seen = today\<rparr>]"
    if "select_job conn (job_id j) = None"
    using that unfolding srows select_job_def find_job_None
    by (simp add: upsert_job_def del: set_map)
  have slen: "length (jobs single) = length (jobs conn)" if "select_job conn (job_id j) = Some r" for r
  proof -
    from that have "select_job conn (job_id j) \<noteq> None" by simp
    then have "job_id j \<in> set (map job_id (jobs conn))"
      unfolding select_job_def find_job_None by simp
    then show ?thesis unfolding srows by (simp add: length_upsert_job del: set_map)
  qed
  have sother: "select_job single k = select_job conn k" if "k \<noteq> job_id j" for k
    unfolding select_job_def srows using that by (rule find_upsert_job_other)
  have part2: "(select_job conn (job_id j) = None \<longrightarrow>
            select_job single (job_id j) =
              Some \<lparr>company = job_like.company j, job_id = job_id j, title = title j,
                    url = url j, location = location j, first_seen = today, last_seen = today\<rparr>
            \<and> jobs single = jobs conn @
                [\<lparr>company = job_like.company j, job_id = job_id j, title = title j,
                  url = url j, location = location j, first_seen = today, last_seen = today\<rparr>])
       \<and> (\<forall>r. select_job conn (job_id j) = Some r \<longrightarrow>
            select_job single (job_id j) =
              Some (r\<lparr>title := title j, url := url j,
                      location := (case location j of None \<Rightarrow> location r | Some l \<Rightarrow> Some l),
                      last_seen := today\<rparr>)
            \<and> length (jobs single) = length (jobs conn))
       \<and> (\<forall>r l. select_job conn (job_id j) = Some r \<and> location j = None \<and> location r = Some l \<longrightarrow>
            (\<exists>r'. select_job single (job_id j) = Some r' \<and> location r' = Some l
                  \<and> first_seen r' = first_seen r \<and> last_seen r' = today))
       \<and> (\<forall>k. k \<noteq> job_id j \<longrightarrow> select_job single k = select_job conn k)"
    using sapp slen by (auto simp: ssame sother)
  from part1 empty seq runs untouched part2 show ?thesis
    by (intro conjI) (elim conjE, assumption)+
qed


theorem upsert_jobs_each_job_witness:
  "select_job (upsert_jobs ''2024-05-01'' \<lparr>jobs = [], runs = []\<rparr>
      [\<lparr>company = ''MathWorks'', job_id = ''MathWorks:1'', title = ''Engineer'',
        url = ''https://example.org/1'', location = Some ''Natick, MA''\<rparr>]) ''MathWorks:1'' =
     Some \<lparr>company = ''MathWorks'', job_id = ''MathWorks:1'', title = ''Engineer'',
        url = ''https://example.org/1'', location = Some ''Natick, MA'',
        first_seen = ''2024-05-01'', last_seen = ''2024-05-01''\<rparr>
   \<and> select_job (upsert_jobs ''2024-05-02''
        (upsert_jobs ''2024-05-01'' \<lparr>jobs = [], runs = []\<rparr>
          [\<lparr>company = ''MathWorks'', job_id = ''MathWorks:1'', title = ''Engineer'',
            url = ''https://example.org/1'', location = Some ''Natick, MA''\<rparr>])
        ([] @ [\<lparr>company = ''MathWorks'', job_id = ''MathWorks:1'', title = ''Senior Engineer'',
            url = ''https://example.org/1b'', location = None\<rparr>])) ''MathWorks:1'' =
     Some \<lparr>company = ''MathWorks'', job_id = ''MathWorks:1'', title = ''Senior Engineer'',
        url = ''https://example.org/1b'', location = Some ''Natick, MA'',
        first_seen = ''2024-05-01'', last_seen = ''2024-05-02''\<rparr>"
  using upsert_jobs_each_job [of "''2024-05-02''"
      "upsert_jobs ''2024-05-01'' \<lparr>jobs = [], runs = []\<rparr>
          [\<lparr>company = ''MathWorks'', job_id = ''MathWorks:1'', title = ''Engineer'',
            url = ''https://example.org/1'', location = Some ''Natick, MA''\<rparr>]"
      "[]"
      "\<lparr>company = ''MathWorks'', job_id = ''MathWorks:1'', title = ''Senior Engineer'',
            url = ''https://example.org/1b'', location = None\<rparr>"]
  by (simp add: upsert_jobs_def upsert_job_def select_job_def coalesce_def)

text \<open>
  Claim C4. Upserting the same job twice on the same day changes nothing the second time.
  In a table with unique job ids where the job is not stored from an earlier day, the two
  upserts leave exactly one row for the job's id, first and last seen that day.
\<close>

theorem upsert_same_job_twice:
  fixes conn :: "'u db" and j :: "('u, 'z) job_like_scheme"
  assumes pk: "distinct (map job_id (jobs conn))"
    and fresh: "\<forall>r\<in>set (jobs conn). job_id r = job_id j \<longrightarrow> first_seen r = today"
  shows "upsert_jobs today (upsert_jobs today conn [j]) [j] = upsert_jobs today conn [j]
    \<and> (\<exists>r. filter (\<lambda>r. job_id r = job_id j) (jobs (upsert_jobs today (upsert_jobs today conn [j]) [j])) = [r]
           \<and> first_seen r = today \<and> last_seen r = today)"
proof -
  have idem: "upsert_jobs today (upsert_jobs today conn [j]) [j] = upsert_jobs today conn [j]"
    by (simp add: upsert_jobs_def upsert_job_idem)
  have rows: "jobs (upsert_jobs today conn [j]) = upsert_job today (jobs conn) j"
    by (simp add: upsert_jobs_def)
  have "\<exists>r. filter (\<lambda>r. job_id r = job_id j) (upsert_job today (jobs conn) j) = [r]
           \<and> first_seen r = today \<and> last_seen r = today"
  proof (cases "job_id j \<in> set (map job_id (jobs conn))")
    case True
    from distinct_filter_id [OF pk True] obtain r where
      r: "filter (\<lambda>r. job_id r = job_id j) (jobs conn) = [r]" "r \<in> set (jobs conn)" by blast
    from r(1) have "r \<in> set (filter (\<lambda>r. job_id r = job_id j) (jobs conn))" by simp
    then have "job_id r = job_id j" by simp
    with fresh r(2) have "first_seen r = today" by blast
    with True r(1) show ?thesis
      by (simp add: filter_id_upsert_job del: set_map)
  next
    case False
    then show ?thesis by (simp add: filter_id_upsert_job del: set_map)
  qed
  with idem rows show ?thesis by simp
qed


theorem upsert_same_job_twice_witness:
  "distinct (map job_id (jobs \<lparr>jobs = [], runs = []\<rparr> :: string job_row list))
   \<and> filter (\<lambda>r. job_id r = ''Amazon:7'')
        (jobs (upsert_jobs ''2024-05-01'' (upsert_jobs ''2024-05-01'' \<lparr>jobs = [], runs = []\<rparr>
           [\<lparr>company = ''Amazon'', job_id = ''Amazon:7'', title = ''SDE'',
             url = ''https://example.org/7'', location = None\<rparr>])
           [\<lparr>company = ''Amazon'', job_id = ''Amazon:7'', title = ''SDE'',
             url = ''https://example.org/7'', location = None\<rparr>])) =
       [\<lparr>company = ''Amazon'', job_id = ''Amazon:7'', title = ''SDE'',
          url = ''https://example.org/7'', location = None,
          first_seen = ''2024-05-01'', last_seen = ''2024-05-01''\<rparr>]"
  using upsert_same_job_twice [of "\<lparr>jobs = [], runs = []\<rparr>"
      "\<lparr>company = ''Amazon'', job_id = ''Amazon:7'', title = ''SDE'',
             url = ''https://example.org/7'', location = None\<rparr>" "''2024-05-01''"]
  by (simp add: upsert_jobs_def upsert_job_def coalesce_def)

text \<open>
  Claim C5. For every company and database state, \<open>get_new_today\<close> returns the
  \<open>(title, url, first_seen, last_seen)\<close> tuples of exactly the company's rows whose
  \<open>first_seen\<close> is today, each as often as it is stored, in ascending order of title.
  After a batch upserted on day \<open>D1\<close> and a batch upserted on a later day \<open>D2\<close> (into a
  table with no row first seen on \<open>D2\<close>), the rows returned on \<open>D2\<close> are those of the job
  ids that the second batch brought and neither the first batch nor the table had.
\<close>

theorem get_new_today_exact:
  fixes conn :: "'u db" and b1 b2 :: "('u, 'z) job_like_scheme list"
  shows "mset (get_new_today today conn c) =
     image_mset (\<lambda>r. (title r, url r, first_seen r, last_seen r))
       (filter_mset (\<lambda>r. job_like.company r = c \<and> first_seen r = today) (mset (jobs conn)))
   \<and> sorted (map fst (get_new_today today conn c))
   \<and> (D1 \<noteq> D2 \<and> (\<forall>r\<in>set (jobs conn). first_seen r \<noteq> D2) \<longrightarrow>
        get_new_today D2 (upsert_jobs D2 (upsert_jobs D1 conn b1) b2) c =
          map (\<lambda>r. (title r, url r, first_seen r, last_seen r))
            (sort_key title
              (filter (\<lambda>r. job_like.company r = c \<and> job_id r \<in> set (map job_id b2)
                           \<and> job_id r \<notin> set (map job_id b1)
                           \<and> job_id r \<notin> set (map job_id (jobs conn)))
                 (jobs (upsert_jobs D2 (upsert_jobs D1 conn b1) b2)))))"
proof -
  have "mset (get_new_today today conn c) =
     image_mset (\<lambda>r. (title r, url r, first_seen r, last_seen r))
       (filter_mset (\<lambda>r. job_like.company r = c \<and> first_seen r = today) (mset (jobs conn)))"
    by (simp add: get_new_today_def)
  moreover have "sorted (map fst (get_new_today today conn c))"
    by (simp add: get_new_today_def o_def)
  ultimately show ?thesis
    using new_today_two_days [where ?D1.0 = D1 and ?D2.0 = D2 and conn = conn and ?b1.0 = b1 and ?b2.0 = b2 and c = c]
    by blast
qed

theorem get_new_today_exact_witness:
  "get_new_today ''2024-05-02''
     (upsert_jobs ''2024-05-02''
       (upsert_jobs ''2024-05-01'' \<lparr>jobs = [], runs = []\<rparr>
          [\<lparr>company = ''MathWorks'', job_id = ''MathWorks:1'', title = ''Modeler'',
            url = ''u1'', location = None\<rparr>])
       [\<lparr>company = ''MathWorks'', job_id = ''MathWorks:1'', title = ''Modeler'',
          url = ''u1'', location = None\<rparr>,
        \<lparr>company = ''MathWorks'', job_id = ''MathWorks:2'', title = ''Tester'',
          url = ''u2'', location = None\<rparr>,
        \<lparr>company = ''Amazon'', job_id = ''Amazon:9'', title = ''Picker'',
          url = ''u9'', location = None\<rparr>,
        \<lparr>company = ''MathWorks'', job_id = ''MathWorks:3'', title = ''Analyst'',
          url = ''u3'', location = None\<rparr>])
     ''MathWorks'' =
   [(''Analyst'', ''u3'', ''2024-05-02'', ''2024-05-02''),
    (''Tester'', ''u2'', ''2024-05-02'', ''2024-05-02'')]"
  using get_new_today_exact [of "''2024-05-02''" "\<lparr>jobs = [], runs = []\<rparr>" "''MathWorks''"
      "''2024-05-01''" "''2024-05-02''"
      "[\<lparr>company = ''MathWorks'', job_id = ''MathWorks:1'', title = ''Modeler'',
            url = ''u1'', location = None\<rparr>]"
      "[\<lparr>company = ''MathWorks'', job_id = ''MathWorks:1'', title = ''Modeler'',
          url = ''u1'', location = None\<rparr>,
        \<lparr>company = ''MathWorks'', job_id = ''MathWorks:2'', title = ''Tester'',
          url = ''u2'', location = None\<rparr>,
        \<lparr>company = ''Amazon'', job_id = ''Amazon:9'', title = ''Picker'',
          url = ''u9'', location = None\<rparr>,
        \<lparr>company = ''MathWorks'', job_id = ''MathWorks:3'', title = ''Analyst'',
          url = ''u3'', location = None\<rparr>]"]
  by (simp add: upsert_jobs_def upsert_job_def coalesce_def)

text \<open>
  Claim C6. In a \<open>runs\<close> table with unique \<open>(run_date, company)\<close> keys, two calls of
  \<open>record_run\<close> for one company on one date leave a single row under that key, holding
  the second call's \<open>ran_at\<close>, \<open>total_jobs\<close> and \<open>new_jobs\<close>; the second call adds no
  row and no other row changes. \<open>get_last_run\<close> is absent exactly when the company has no
  run, and otherwise is a stored run of the company whose \<open>run_date\<close> no other run of the
  company exceeds; when no run of the company is dated after today, it is the run just
  recorded.
\<close>

theorem record_run_overwrites:
  fixes conn :: "'u db"
  assumes pk: "distinct (map run_key (runs conn))"
  shows "filter (\<lambda>r. run_key r = (today, c))
           (runs (record_run today now2 (record_run today now1 conn c t1 n1) c t2 n2)) =
         [\<lparr>run_date = today, company = c, ran_at = now2, total_jobs = t2, new_jobs = n2\<rparr>]
    \<and> length (runs (record_run today now2 (record_run today now1 conn c t1 n1) c t2 n2)) =
        length (runs (record_run today now1 conn c t1 n1))
    \<and> filter (\<lambda>r. run_key r \<noteq> (today, c))
           (runs (record_run today now2 (record_run today now1 conn c t1 n1) c t2 n2)) =
        filter (\<lambda>r. run_key r \<noteq> (today, c)) (runs conn)
    \<and> (get_last_run conn c = None \<longleftrightarrow> c \<notin> set (map run_row.company (runs conn)))
    \<and> (\<forall>d a t n. get_last_run conn c = Some (d, a, t, n) \<longrightarrow>
          \<lparr>run_date = d, company = c, ran_at = a, total_jobs = t, new_jobs = n\<rparr> \<in> set (runs conn)
          \<and> (\<forall>r\<in>set (runs conn). run_row.company r = c \<longrightarrow> run_date r \<le> d))
    \<and> ((\<forall>r\<in>set (runs conn). run_row.company r = c \<longrightarrow> run_date r \<le> today) \<longrightarrow>
          get_last_run (record_run today now2 (record_run today now1 conn c t1 n1) c t2 n2) c =
            Some (today, now2, t2, n2))"
proof -
  have pk1: "distinct (map run_key (runs (record_run today now1 conn c t1 n1)))"
    using pk by (simp add: run_keys_record_run del: set_map)
  have latest1: "\<forall>r\<in>set (runs (record_run today now1 conn c t1 n1)). run_row.company r = c \<longrightarrow> run_date r \<le> today"
    if "\<forall>r\<in>set (runs conn). run_row.company r = c \<longrightarrow> run_date r \<le> today"
    using that record_run_row_dates [of _ today now1 conn c t1 n1] by auto
  show ?thesis
    using record_run_twice_row [OF pk] record_run_twice_length
      get_last_run_None [of conn c] get_last_run_Some [of conn c]
      get_last_run_after [OF pk1 latest1]
    by (simp add: filter_other_record_run del: set_map)
qed


theorem record_run_overwrites_witness:
  "distinct (map run_key (runs (\<lparr>jobs = [], runs = []\<rparr> :: string db)))
   \<and> runs (record_run ''2024-05-02'' ''2024-05-02T18:00:00''
        (record_run ''2024-05-02'' ''2024-05-02T09:00:00''
           (\<lparr>jobs = [], runs = []\<rparr> :: string db) ''Netflix'' 40 40) ''Netflix'' 42 2) =
       [\<lparr>run_date = ''2024-05-02'', company = ''Netflix'', ran_at = ''2024-05-02T18:00:00'',
          total_jobs = 42, new_jobs = 2\<rparr>]
   \<and> get_last_run (record_run ''2024-05-02'' ''2024-05-02T18:00:00''
        (record_run ''2024-05-02'' ''2024-05-02T09:00:00''
           (\<lparr>jobs = [], runs = []\<rparr> :: string db) ''Netflix'' 40 40) ''Netflix'' 42 2) ''Netflix'' =
       Some (''2024-05-02'', ''2024-05-02T18:00:00'', 42, 2)
   \<and> get_last_run (\<lparr>jobs = [], runs = []\<rparr> :: string db) ''Netflix'' = None"
  using record_run_overwrites [of "\<lparr>jobs = [], runs = []\<rparr> :: string db" "''2024-05-02''"
      "''Netflix''" "''2024-05-02T18:00:00''" "''2024-05-02T09:00:00''" 40 40 42 2]
  by (simp add: record_run_def run_key_def)

section \<open>Properties of the COMSOL heading parser\<close>

lemma strip_last: "strip s \<noteq> [] \<Longrightarrow> \<not> is_space (last (strip s))"
  unfolding strip_def by (simp add: last_rev hd_dropWhile)

lemma strip_hd:
  assumes "strip s \<noteq> []"
  shows "\<not> is_space (hd (strip s))"
proof -
  let ?u = "dropWhile is_space s"
  let ?k = "length (takeWhile is_space (rev ?u))"
  have eq: "strip s = take (length ?u - ?k) ?u"
    unfolding strip_def by (simp add: dropWhile_eq_drop [of is_space "rev _"] rev_drop)
  with assms have "?u \<noteq> []" "0 < length ?u - ?k" by auto
  then have "hd (strip s) = hd ?u" unfolding eq by (cases ?u) (auto simp: take_Suc_conv_app_nth hd_take)
  moreover have "\<not> is_space (hd ?u)" using \<open>?u \<noteq> []\<close> by (rule hd_dropWhile)
  ultimately show ?thesis by simp
qed

lemma strip_idem: "strip (strip s) = strip s"
proof (cases "strip s = []")
  case True
  have "strip [] = []" by (simp add: strip_def)
  with True show ?thesis by simp
next
  case False
  let ?t = "strip s"
  have h: "\<not> is_space (hd ?t)" and l: "\<not> is_space (last ?t)"
    using False by (rule strip_hd, rule strip_last)
  from False h have 1: "dropWhile is_space ?t = ?t" by (cases ?t) auto
  from False l have 2: "dropWhile is_space (rev ?t) = rev ?t"
    by (cases "rev ?t") (auto simp: last_rev [symmetric] simp del: last_rev)
  show ?thesis
    by (subst strip_def) (simp only: 1 2 rev_rev_ident)
qed

lemma split_no_sep: "p \<in> set (split sep s) \<Longrightarrow> sep \<notin> set p"
  by (induction s arbitrary: p) (auto split: if_splits list.splits)

lemma split_nonempty: "split sep s \<noteq> []"
  by (induction s) (auto split: list.splits)

lemma join_split: "join [sep] (split sep s) = s"
proof (induction s)
  case Nil
  then show ?case by simp
next
  case (Cons c cs)
  show ?case
  proof (cases "c = sep")
    case True
    with Cons show ?thesis using split_nonempty [of sep cs]
      by (cases "split sep cs") auto
  next
    case False
    obtain p ps where sp: "split sep cs = p # ps"
      using split_nonempty [of sep cs] by (cases "split sep cs") auto
    with Cons False show ?thesis by (cases ps) auto
  qed
qed

lemma strip_subset: "set (strip s) \<subseteq> set s"
proof -
  have "set (strip s) \<subseteq> set (dropWhile is_space s)"
    unfolding strip_def using set_dropWhileD [of _ is_space "rev (dropWhile is_space s)"] by auto
  also have "\<dots> \<subseteq> set s" using set_dropWhileD [of _ is_space s] by auto
  finally show ?thesis .
qed

lemma heading_parts_alt:
  "heading_parts heading = filter (\<lambda>p. p \<noteq> []) (map strip (split CHR '','' heading))"
  by (simp add: heading_parts_def filter_map o_def)

lemma heading_parts_trimmed:
  assumes "p \<in> set (heading_parts heading)"
  shows "p \<noteq> [] \<and> \<not> is_space (hd p) \<and> \<not> is_space (last p) \<and> CHR '','' \<notin> set p"
proof -
  from assms obtain q where q: "q \<in> set (split CHR '','' heading)" "p = strip q" "strip q \<noteq> []"
    by (auto simp: heading_parts_def)
  from q(1) have "CHR '','' \<notin> set q" by (rule split_no_sep)
  with strip_subset [of q] have "CHR '','' \<notin> set (strip q)" by auto
  with q strip_hd [of q] strip_last [of q] show ?thesis by simp
qed

lemma normalize_heading_location_cases:
  "normalize_heading_location nl heading =
     (case heading_parts heading of
        city # state # country # _ \<Rightarrow> nl (country_to_iso2 country) state city
      | [city, country] \<Rightarrow> nl (country_to_iso2 country) [] city
      | _ \<Rightarrow> None)"
  by (simp add: normalize_heading_location_def Let_def split: list.splits)

lemma country_to_iso2_table:
  "country_to_iso2 c =
     (if country_key c \<in> {''usa'', ''us'', ''united states'', ''united states of america''} then ''US''
      else if country_key c \<in> {''united kingdom'', ''uk'', ''great britain''} then ''GB''
      else if country_key c = ''china'' then ''CN''
      else if country_key c = ''germany'' then ''DE''
      else if country_key c = ''france'' then ''FR''
      else if country_key c = ''italy'' then ''IT''
      else if country_key c = ''finland'' then ''FI''
      else if country_key c = ''sweden'' then ''SE''
      else if country_key c = ''india'' then ''IN''
      else upper (strip c))"
  by (simp add: country_to_iso2_def country_mapping_def strip_idem)


lemma of_char_period: "(of_char x :: nat) = 46 \<longleftrightarrow> x = CHR ''.''"
  using of_char_eq_iff [of x "CHR ''.''", where ?'a = nat] by simp

lemma of_char_lower_char:
  "(of_char (lower_char c) :: nat) =
     (if 65 \<le> (of_char c :: nat) \<and> (of_char c :: nat) \<le> 90 then of_char c + 32 else of_char c)"
  by (simp add: lower_char_def Let_def)

lemma is_space_lower_char: "is_space (lower_char c) = is_space c"
  unfolding is_space_def Let_def of_char_lower_char by auto

lemma lower_char_period: "lower_char c = CHR ''.'' \<longleftrightarrow> c = CHR ''.''"
  unfolding of_char_period [symmetric] of_char_lower_char by auto

lemma lower_char_idem: "lower_char (lower_char c) = lower_char c"
proof -
  have "(of_char (lower_char (lower_char c)) :: nat) = of_char (lower_char c)"
    unfolding of_char_lower_char [of "lower_char c"] unfolding of_char_lower_char by auto
  then show ?thesis by (simp only: of_char_eq_iff)
qed

lemma lower_char_blank: "lower_char (CHR '' '') = CHR '' ''"
  by (simp add: lower_char_def)

lemma dropWhile_space_casefold:
  "dropWhile is_space (casefold s) = casefold (dropWhile is_space s)"
  by (simp add: casefold_def dropWhile_map o_def is_space_lower_char)

lemma strip_casefold: "strip (casefold s) = casefold (strip s)"
proof -
  have r: "rev (casefold t) = casefold (rev t)" for t by (simp add: casefold_def rev_map)
  show ?thesis
    unfolding strip_def dropWhile_space_casefold r ..
qed

lemma collapse_spaces_casefold: "collapse_spaces (casefold s) = casefold (collapse_spaces s)"
proof (induction s rule: collapse_spaces.induct)
  case 1
  then show ?case by (simp add: casefold_def)
next
  case (2 c cs)
  have cf: "casefold (x # xs) = lower_char x # casefold xs" for x xs by (simp add: casefold_def)
  show ?case
  proof (cases "is_space c")
    case True
    with 2(1) show ?thesis
      by (simp add: cf is_space_lower_char dropWhile_space_casefold lower_char_blank)
  next
    case False
    with 2(2) show ?thesis
      by (simp add: cf is_space_lower_char)
  qed
qed

lemma filter_period_casefold:
  "filter (\<lambda>x. x \<noteq> CHR ''.'') (casefold s) = casefold (filter (\<lambda>x. x \<noteq> CHR ''.'') s)"
  by (simp add: casefold_def filter_map o_def lower_char_period)

lemma casefold_idem: "casefold (casefold s) = casefold s"
  by (simp add: casefold_def lower_char_idem)

lemma country_key_casefold: "country_key (casefold s) = country_key s"
  by (simp add: country_key_def strip_casefold collapse_spaces_casefold filter_period_casefold
      casefold_idem)

lemma country_key_case_insensitive:
  "casefold s = casefold t \<Longrightarrow> country_key s = country_key t"
  by (metis country_key_casefold)

text \<open>
  Claim C7. The parts of a heading are the pieces between its commas, trimmed, without
  the empty ones. With fewer than two parts the location is absent; with exactly two the
  normalizer gets the first part as city, no state, and the mapped second part as
  country; with three or more it gets the first three parts as city, state and mapped
  country, and the rest is ignored. The country is looked up in the fixed table under a
  key that ignores case, periods, surrounding and repeated spaces; a name not in the
  table becomes its trimmed upper-cased text.
\<close>

theorem normalize_heading_location_spec:
  "normalize_heading_location nl heading =
     (case heading_parts heading of
        city # state # country # _ \<Rightarrow> nl (country_to_iso2 country) state city
      | [city, country] \<Rightarrow> nl (country_to_iso2 country) [] city
      | _ \<Rightarrow> None)
   \<and> heading_parts heading = filter (\<lambda>p. p \<noteq> []) (map strip (split CHR '','' heading))
   \<and> join '','' (split CHR '','' heading) = heading
   \<and> (\<forall>p\<in>set (heading_parts heading).
         p \<noteq> [] \<and> \<not> is_space (hd p) \<and> \<not> is_space (last p) \<and> CHR '','' \<notin> set p)
   \<and> country_to_iso2 c =
     (if country_key c \<in> {''usa'', ''us'', ''united states'', ''united states of america''} then ''US''
      else if country_key c \<in> {''united kingdom'', ''uk'', ''great britain''} then ''GB''
      else if country_key c = ''china'' then ''CN''
      else if country_key c = ''germany'' then ''DE''
      else if country_key c = ''france'' then ''FR''
      else if country_key c = ''italy'' then ''IT''
      else if country_key c = ''finland'' then ''FI''
      else if country_key c = ''sweden'' then ''SE''
      else if country_key c = ''india'' then ''IN''
      else upper (strip c))
   \<and> country_key c = casefold (filter (\<lambda>x. x \<noteq> CHR ''.'') (collapse_spaces (strip c)))
   \<and> (casefold c = casefold c' \<longrightarrow> country_to_iso2 c = country_to_iso2 c'
         \<or> (country_to_iso2 c = upper (strip c) \<and> country_to_iso2 c' = upper (strip c')))"
proof -
  have lookup: "country_to_iso2 x =
      (case map_of country_mapping (country_key x) of Some code \<Rightarrow> code | None \<Rightarrow> upper (strip x))" for x
  proof -
    have "code \<noteq> []" if "map_of country_mapping k = Some code" for k code
      using that by (auto simp: country_mapping_def split: if_splits)
    then show ?thesis
      by (simp add: country_to_iso2_def strip_idem split: option.splits)
  qed
  have ci: "casefold c = casefold c' \<longrightarrow> country_to_iso2 c = country_to_iso2 c'
         \<or> (country_to_iso2 c = upper (strip c) \<and> country_to_iso2 c' = upper (strip c'))"
  proof
    assume "casefold c = casefold c'"
    then have k: "country_key c = country_key c'" by (rule country_key_case_insensitive)
    show "country_to_iso2 c = country_to_iso2 c'
         \<or> (country_to_iso2 c = upper (strip c) \<and> country_to_iso2 c' = upper (strip c'))"
      unfolding lookup [of c] lookup [of c'] k
      by (cases "map_of country_mapping (country_key c')") simp_all
  qed
  have key: "country_key c = casefold (filter (\<lambda>x. x \<noteq> CHR ''.'') (collapse_spaces (strip c)))"
    by (simp add: country_key_def)
  have trimmed: "\<forall>p\<in>set (heading_parts heading).
         p \<noteq> [] \<and> \<not> is_space (hd p) \<and> \<not> is_space (last p) \<and> CHR '','' \<notin> set p"
    using heading_parts_trimmed [of _ heading] by blast
  show ?thesis
    apply (intro conjI)
          apply (rule normalize_heading_location_cases)
         apply (rule heading_parts_alt)
        apply (rule join_split)
       apply (rule trimmed)
      apply (rule country_to_iso2_table)
     apply (rule key)
    apply (rule ci)
    done
qed

theorem normalize_heading_location_spec_witness:
  "normalize_heading_location (\<lambda>country state city. Some (city @ ''/'' @ state @ ''/'' @ country))
       ''Burlington, MA, USA'' = Some ''Burlington/MA/US''
   \<and> normalize_heading_location (\<lambda>country state city. Some (city @ ''/'' @ state @ ''/'' @ country))
       ''Beijing, China'' = Some ''Beijing//CN''
   \<and> normalize_heading_location (\<lambda>country state city. Some (city @ ''/'' @ state @ ''/'' @ country))
       ''Remote'' = None
   \<and> normalize_heading_location (\<lambda>country state city. Some (city @ ''/'' @ state @ ''/'' @ country))
       '' Boston ,, MA , U.S.A. , HQ'' = Some ''Boston/MA/US''
   \<and> country_to_iso2 ''United  KINGDOM'' = ''GB''
   \<and> country_to_iso2 '' Czech Republic'' = ''CZECH REPUBLIC''"
proof -
  let ?nl = "\<lambda>country state city. Some (city @ ''/'' @ state @ ''/'' @ country)"
  have p1: "heading_parts ''Burlington, MA, USA'' = [''Burlington'', ''MA'', ''USA'']"
    by code_simp
  have k1: "country_key ''USA'' = ''usa''" by code_simp
  have "normalize_heading_location ?nl ''Burlington, MA, USA'' =
      (case heading_parts ''Burlington, MA, USA'' of
        city # state # country # _ \<Rightarrow> ?nl (country_to_iso2 country) state city
      | [city, country] \<Rightarrow> ?nl (country_to_iso2 country) [] city
      | _ \<Rightarrow> None)"
    and "country_to_iso2 ''USA'' =
     (if country_key ''USA'' \<in> {''usa'', ''us'', ''united states'', ''united states of america''} then ''US''
      else if country_key ''USA'' \<in> {''united kingdom'', ''uk'', ''great britain''} then ''GB''
      else if country_key ''USA'' = ''china'' then ''CN''
      else if country_key ''USA'' = ''germany'' then ''DE''
      else if country_key ''USA'' = ''france'' then ''FR''
      else if country_key ''USA'' = ''italy'' then ''IT''
      else if country_key ''USA'' = ''finland'' then ''FI''
      else if country_key ''USA'' = ''sweden'' then ''SE''
      else if country_key ''USA'' = ''india'' then ''IN''
      else upper (strip ''USA''))"
    using normalize_heading_location_spec [of ?nl "''Burlington, MA, USA''" "''USA''" "''usa''"]
    by blast+
  then have 1: "normalize_heading_location ?nl ''Burlington, MA, USA'' = Some ''Burlington/MA/US''"
    unfolding p1 k1 by simp
  have 2: "normalize_heading_location ?nl ''Beijing, China'' = Some ''Beijing//CN''"
    by code_simp
  have 3: "normalize_heading_location ?nl ''Remote'' = None"
    by code_simp
  have 4: "normalize_heading_location ?nl '' Boston ,, MA , U.S.A. , HQ'' = Some ''Boston/MA/US''"
    by code_simp
  have 5: "country_to_iso2 ''United  KINGDOM'' = ''GB''"
    by code_simp
  have 6: "country_to_iso2 '' Czech Republic'' = ''CZECH REPUBLIC''"
    by code_simp
  from 1 2 3 4 5 6 show ?thesis by blast
qed

section \<open>Properties of the profile loader\<close>

lemma py_list_not_fnf: "py_list v \<noteq> Inl FileNotFoundError"
  by (cases v) simp_all

lemma load_profile_missing:
  "load_profile repr fs n = Inl FileNotFoundError \<longleftrightarrow> fs (profile_path n) = None"
  by (auto simp: load_profile_def Let_def py_list_not_fnf
      split: option.splits yaml_doc.splits pyval.splits sum.splits)

lemma load_profile_empty:
  assumes "fs (profile_path n) = Some (Loaded v)" "\<not> truthy v"
  shows "load_profile repr fs n =
     Inr \<lparr>name = n, db_path = ''data/'' @ n @ ''.sqlite'', enabled_companies = []\<rparr>"
  using assms by (simp add: load_profile_def py_or_def)

lemma load_profile_mapping:
  assumes "fs (profile_path n) = Some (Loaded (PyDict d))"
  shows "load_profile repr fs n =
     (case py_list (case map_of d ''enabled_companies'' of None \<Rightarrow> PyList [] | Some x \<Rightarrow> x) of
        Inl e \<Rightarrow> Inl e
      | Inr cs \<Rightarrow>
          Inr \<lparr>name = n,
               db_path = (case map_of d ''db_path'' of
                            None \<Rightarrow> ''data/'' @ n @ ''.sqlite'' | Some x \<Rightarrow> py_str repr x),
               enabled_companies = cs\<rparr>)"
proof (cases "d = []")
  case True
  with assms show ?thesis by (simp add: load_profile_def py_or_def)
next
  case False
  with assms show ?thesis
    by (simp add: load_profile_def py_or_def split: option.splits sum.splits)
qed

lemma load_profile_malformed:
  "fs (profile_path n) = Some Malformed \<Longrightarrow> load_profile repr fs n = Inl YAMLError"
  by (simp add: load_profile_def)

lemma load_profile_not_mapping:
  assumes "fs (profile_path n) = Some (Loaded v)" "truthy v" "\<forall>d. v \<noteq> PyDict d"
  shows "load_profile repr fs n = Inl AttributeError"
  using assms by (cases v) (simp_all add: load_profile_def py_or_def)


text \<open>
  Claim C8 (as amended). \<open>load_profile\<close> fails with \<open>FileNotFoundError\<close> exactly when
  the profile file does not exist. When the file holds a mapping, a missing \<open>db_path\<close>
  becomes \<open>data/<name>.sqlite\<close> and a missing \<open>enabled_companies\<close> the empty list. A
  document that loads to nothing, or to any false value, is read as the empty mapping and
  gives all defaults. A document the YAML loader rejects makes \<open>load_profile\<close> fail with
  the loader's error, and one that loads to a true value that is not a mapping makes it
  fail with \<open>AttributeError\<close>. The counterexample shows the two failures that the claim
  as stated rules out.
\<close>

theorem load_profile_spec:
  "(load_profile repr fs n = Inl FileNotFoundError \<longleftrightarrow> fs (profile_path n) = None)
   \<and> (\<forall>v. fs (profile_path n) = Some (Loaded v) \<and> \<not> truthy v \<longrightarrow>
         load_profile repr fs n =
           Inr \<lparr>name = n, db_path = ''data/'' @ n @ ''.sqlite'', enabled_companies = []\<rparr>)
   \<and> (\<forall>d. fs (profile_path n) = Some (Loaded (PyDict d)) \<longrightarrow>
         load_profile repr fs n =
           (case py_list (case map_of d ''enabled_companies'' of None \<Rightarrow> PyList [] | Some x \<Rightarrow> x) of
              Inl e \<Rightarrow> Inl e
            | Inr cs \<Rightarrow>
                Inr \<lparr>name = n,
                     db_path = (case map_of d ''db_path'' of
                                  None \<Rightarrow> ''data/'' @ n @ ''.sqlite'' | Some x \<Rightarrow> py_str repr x),
                     enabled_companies = cs\<rparr>))
   \<and> (fs (profile_path n) = Some Malformed \<longrightarrow> load_profile repr fs n = Inl YAMLError)
   \<and> (\<forall>v. fs (profile_path n) = Some (Loaded v) \<and> truthy v \<and> (\<forall>d. v \<noteq> PyDict d) \<longrightarrow>
         load_profile repr fs n = Inl AttributeError)"
  using load_profile_missing [of repr fs n] load_profile_empty [of fs n _ repr]
    load_profile_mapping [of fs n _ repr] load_profile_malformed [of fs n repr]
    load_profile_not_mapping [of fs n _ repr]
  by blast

theorem load_profile_malformed_counterexample:
  "load_profile (\<lambda>v. []) [profile_path ''yt'' \<mapsto> Malformed] ''yt'' = Inl YAMLError
   \<and> load_profile (\<lambda>v. []) [profile_path ''yt'' \<mapsto> Loaded (PyList [PyStr ''Netflix''])] ''yt'' =
       Inl AttributeError"
  by (simp add: load_profile_def py_or_def)

theorem load_profile_spec_witness:
  "load_profile (\<lambda>v. []) [profile_path ''bz'' \<mapsto> Loaded PyNone] ''bz'' =
       Inr \<lparr>name = ''bz'', db_path = ''data/bz.sqlite'', enabled_companies = []\<rparr>
   \<and> load_profile (\<lambda>v. []) [profile_path ''bz'' \<mapsto> Loaded PyNone] ''yt'' = Inl FileNotFoundError
   \<and> load_profile (\<lambda>v. [])
        [profile_path ''yt'' \<mapsto> Loaded (PyDict [(''enabled_companies'', PyList [PyStr ''Netflix''])])]
        ''yt'' =
       Inr \<lparr>name = ''yt'', db_path = ''data/yt.sqlite'', enabled_companies = [PyStr ''Netflix'']\<rparr>"
  using load_profile_spec [of "\<lambda>v. []" "[profile_path ''bz'' \<mapsto> Loaded PyNone]" "''bz''"]
    load_profile_spec [of "\<lambda>v. []" "[profile_path ''bz'' \<mapsto> Loaded PyNone]" "''yt''"]
    load_profile_spec [of "\<lambda>v. []"
      "[profile_path ''yt'' \<mapsto> Loaded (PyDict [(''enabled_companies'', PyList [PyStr ''Netflix''])])]"
      "''yt''"]
  by (simp add: profile_path_def)

section \<open>Properties of the browse view's pagination\<close>

lemma div_mult_le_int:
  fixes a p :: int
  assumes "0 < p"
  shows "a div p * p \<le> a" and "a < (a div p + 1) * p"
proof -
  have e: "a div p * p + a mod p = a" by simp
  have m: "0 \<le> a mod p" "a mod p < p" using assms by simp_all
  from e m show "a div p * p \<le> a" by linarith
  have "(a div p + 1) * p = a div p * p + p" by (simp add: distrib_right)
  with e m show "a < (a div p + 1) * p" by linarith
qed

lemma ceil_div:
  fixes n p :: int
  assumes "0 < p"
  shows "(n - 1) div p + 1 = \<lceil>real_of_int n / real_of_int p\<rceil>"
proof -
  let ?q = "(n - 1) div p"
  from div_mult_le_int [OF assms, of "n - 1"]
  have 1: "?q * p < n" and 2: "n \<le> (?q + 1) * p" by linarith+
  have p: "0 < real_of_int p" using assms by simp
  have "real_of_int ?q * real_of_int p < real_of_int n"
    using 1 by (metis of_int_less_iff of_int_mult)
  then have a: "real_of_int (?q + 1) - 1 < real_of_int n / real_of_int p"
    using p by (simp add: pos_less_divide_eq)
  have "real_of_int n \<le> real_of_int (?q + 1) * real_of_int p"
    using 2 by (metis of_int_le_iff of_int_mult)
  then have b: "real_of_int n / real_of_int p \<le> real_of_int (?q + 1)"
    using p by (simp add: pos_divide_le_eq)
  from a b have "\<lceil>real_of_int n / real_of_int p\<rceil> = ?q + 1" by (rule ceiling_unique)
  then show ?thesis by simp
qed

lemma start_lt:
  fixes n p pg :: int
  assumes "0 < p" "pg \<le> (n - 1) div p + 1"
  shows "(pg - 1) * p < n"
proof -
  from assms have "(pg - 1) * p \<le> (n - 1) div p * p"
    by (intro mult_right_mono) simp_all
  also have "\<dots> \<le> n - 1" using assms(1) by (rule div_mult_le_int)
  finally show ?thesis by simp
qed


text \<open>
  Claim C9. For a non-empty result set and a positive page size, the page count is
  \<open>max(1, ceil(total / page_size))\<close>, the page shown is the requested one clamped to
  \<open>[1, max_page]\<close>, and the rows shown are the page's window of the result, never
  empty. With 120 rows and page size 50 the page count is 3, and a request for page 5
  shows page 3: rows 101 to 120.
\<close>

theorem pagination_clamp:
  fixes rows :: "'r list"
  assumes ne: "rows \<noteq> []" and ps: "0 < page_size"
  shows "\<exists>v. pagination rows page_size requested = Some v
    \<and> max_page v = max 1 \<lceil>real (length rows) / real_of_int page_size\<rceil>
    \<and> 1 \<le> page_view.page v \<and> page_view.page v \<le> max_page v
    \<and> page_view.page v = (case requested of None \<Rightarrow> 1
                 | Some p \<Rightarrow> if p < 1 then 1 else if max_page v < p then max_page v else p)
    \<and> page_rows v = take (nat page_size) (drop (nat ((page_view.page v - 1) * page_size)) rows)
    \<and> page_rows v \<noteq> []
    \<and> caption v = ((page_view.page v - 1) * page_size + 1,
                    min (page_view.page v * page_size) (int (length rows)), int (length rows))
    \<and> (length rows = 120 \<and> page_size = 50 \<and> requested = Some 5 \<longrightarrow>
          max_page v = 3 \<and> page_view.page v = 3 \<and> page_rows v = drop 100 rows
          \<and> caption v = (101, 120, 120))"
proof -
  define n where "n = int (length rows)"
  define mp where "mp = max 1 ((n - 1) div page_size + 1)"
  define pg where "pg = number_input 1 mp 1 requested"
  define v :: "'r page_view" where
    "v = \<lparr>max_page = mp, page = pg,
          page_rows = py_slice rows ((pg - 1) * page_size) ((pg - 1) * page_size + page_size),
          caption = ((pg - 1) * page_size + 1, min ((pg - 1) * page_size + page_size) n, n)\<rparr>"
  have n1: "1 \<le> n" using ne by (cases rows) (simp_all add: n_def)
  have pv: "pagination rows page_size requested = Some v"
    using ne by (simp add: pagination_def Let_def v_def pg_def mp_def n_def)
  have "0 \<le> (n - 1) div page_size" using n1 ps by (simp add: pos_imp_zdiv_nonneg_iff)
  then have mp_eq: "mp = (n - 1) div page_size + 1" by (simp add: mp_def)
  have mp1: "1 \<le> mp" by (simp add: mp_def)
  have mpc: "mp = max 1 \<lceil>real (length rows) / real_of_int page_size\<rceil>"
    using ceil_div [OF ps, of n] by (simp add: mp_def n_def)
  have pg_case: "pg = (case requested of None \<Rightarrow> 1
                 | Some p \<Rightarrow> if p < 1 then 1 else if mp < p then mp else p)"
    using mp1 by (auto simp: pg_def number_input_def split: option.splits)
  have pg_rng: "1 \<le> pg" "pg \<le> mp"
    using mp1 by (auto simp: pg_def number_input_def split: option.splits)
  have st: "0 \<le> (pg - 1) * page_size" using pg_rng ps by simp
  have lt: "(pg - 1) * page_size < n" using pg_rng(2) ps unfolding mp_eq by (rule start_lt [rotated])
  have sl: "py_slice rows ((pg - 1) * page_size) ((pg - 1) * page_size + page_size) =
      take (nat page_size) (drop (nat ((pg - 1) * page_size)) rows)"
  proof -
    let ?s = "(pg - 1) * page_size"
    have lo: "slice_bound (length rows) ?s = nat ?s"
      using st lt by (simp add: slice_bound_def n_def)
    have hi: "slice_bound (length rows) (?s + page_size) = min (length rows) (nat ?s + nat page_size)"
      using st ps by (simp add: slice_bound_def nat_add_distrib)
    show ?thesis
      unfolding py_slice_def Let_def lo hi
      by (cases "length rows \<le> nat ?s + nat page_size") (simp_all add: min_def)
  qed
  have nonempty: "take (nat page_size) (drop (nat ((pg - 1) * page_size)) rows) \<noteq> []"
    using ps lt st by (simp add: n_def)
  have cap: "(pg - 1) * page_size + page_size = pg * page_size" by (simp add: algebra_simps)
  have ex: "mp = 3 \<and> pg = 3 \<and> take (nat page_size) (drop (nat ((pg - 1) * page_size)) rows) = drop 100 rows
        \<and> ((pg - 1) * page_size + 1, min (pg * page_size) n, n) = (101, 120, 120)"
    if "length rows = 120" "page_size = 50" "requested = Some 5"
  proof -
    from that have "n = 120" by (simp add: n_def)
    with that have "mp = 3" by (simp add: mp_def)
    with that have "pg = 3" by (simp add: pg_def number_input_def)
    with \<open>mp = 3\<close> \<open>n = 120\<close> that show ?thesis by simp
  qed
  have f12: "max_page v = mp" "page_view.page v = pg"
    unfolding v_def by (simp_all only: page_view.select_convs)
  have f3: "page_rows v = take (nat page_size) (drop (nat ((pg - 1) * page_size)) rows)"
    unfolding v_def by (simp only: page_view.select_convs sl)
  have f4: "caption v = ((pg - 1) * page_size + 1, min (pg * page_size) n, n)"
    unfolding v_def by (simp only: page_view.select_convs cap)
  note fields = f12 f3 f4
  show ?thesis
  proof (intro exI [of _ v] conjI)
    show "pagination rows page_size requested = Some v" by (rule pv)
    show "max_page v = max 1 \<lceil>real (length rows) / real_of_int page_size\<rceil>"
      unfolding fields by (rule mpc)
    show "1 \<le> page_view.page v" "page_view.page v \<le> max_page v" unfolding fields by (rule pg_rng)+
    show "page_view.page v = (case requested of None \<Rightarrow> 1
                 | Some p \<Rightarrow> if p < 1 then 1 else if max_page v < p then max_page v else p)"
      unfolding fields by (rule pg_case)
    show "page_rows v = take (nat page_size) (drop (nat ((page_view.page v - 1) * page_size)) rows)"
      unfolding fields ..
    show "page_rows v \<noteq> []" unfolding fields by (rule nonempty)
    show "caption v = ((page_view.page v - 1) * page_size + 1,
                    min (page_view.page v * page_size) (int (length rows)), int (length rows))"
      unfolding fields n_def ..
    show "length rows = 120 \<and> page_size = 50 \<and> requested = Some 5 \<longrightarrow>
          max_page v = 3 \<and> page_view.page v = 3 \<and> page_rows v = drop 100 rows
          \<and> caption v = (101, 120, 120)"
      unfolding fields using ex by blast
  qed
qed

theorem pagination_clamp_witness:
  "[0..<120] \<noteq> [] \<and> (0::int) < 50
   \<and> (\<exists>v. pagination [0..<120] 50 (Some 5) = Some v \<and> max_page v = 3 \<and> page_view.page v = 3
          \<and> page_rows v = [100..<120] \<and> caption v = (101, 120, 120))"
proof -
  have ne: "[0..<120] \<noteq> []" by simp
  have ps: "(0::int) < 50" by simp
  from pagination_clamp [OF ne ps, of "Some 5"] obtain v where
    v: "pagination [0..<120] 50 (Some 5) = Some v"
    and ex: "length [0..<120] = 120 \<and> (50::int) = 50 \<and> Some (5::int) = Some 5 \<longrightarrow>
          max_page v = 3 \<and> page_view.page v = 3 \<and> page_rows v = drop 100 [0..<120]
          \<and> caption v = (101, 120, 120)"
    by blast
  from ex have "max_page v = 3 \<and> page_view.page v = 3 \<and> page_rows v = [100..<120]
      \<and> caption v = (101, 120, 120)"
    by simp
  with v ne ps show ?thesis by blast
qed

section \<open>Properties of the Netflix connector\<close>

subsection \<open>Locations and parsed postings\<close>

lemma foldl_fromkeys_hd:
  "\<exists>ys. foldl (\<lambda>acc x. if x \<in> set acc then acc else acc @ [x]) (a # acc) xs = a # ys"
  by (induction xs arbitrary: acc) auto

lemma fromkeys_Cons: "\<exists>ys. fromkeys (x # xs) = x # ys"
  unfolding fromkeys_def using foldl_fromkeys_hd [of x "[]" xs] by simp

lemma join_Cons_nonempty: "x \<noteq> [] \<Longrightarrow> join sep (x # xs) \<noteq> []"
  by (cases xs) auto

lemma location_item_nonempty: "s \<in> set (location_item repr item) \<Longrightarrow> s \<noteq> []"
  by (cases item) (auto simp: location_item_def Let_def split: if_splits)

lemma extract_location_nonempty: "extract_location repr raw \<noteq> []"
proof -
  define loc where "loc = py_or (dict_get raw ''locations'') (py_or (dict_get raw ''location'')
                  (py_or (dict_get raw ''jobLocation'') (dict_get raw ''locationName'')))"
  show ?thesis
  proof (cases loc)
    case (PyList items)
    let ?parts = "concat (map (location_item repr) items)"
    have "join '', '' (fromkeys ?parts) \<noteq> []" if "?parts \<noteq> []"
    proof -
      from that obtain x xs where p: "?parts = x # xs" by (cases ?parts) auto
      then have "x \<in> set ?parts" by simp
      then have "x \<noteq> []" using location_item_nonempty by auto
      moreover from fromkeys_Cons [of x xs] obtain ys where "fromkeys ?parts = x # ys"
        unfolding p by blast
      ultimately show ?thesis by (simp add: join_Cons_nonempty)
    qed
    with PyList show ?thesis
      by (simp add: extract_location_def loc_def [symmetric] Let_def)
  qed (simp_all add: extract_location_def loc_def [symmetric] Let_def)
qed

lemma parse_job_Some:
  assumes "parse_job repr raw = Inr (Some j)"
  shows "native_id raw \<noteq> PyNone"
    and "job_id j = ''Netflix:'' @ strip (py_str repr (native_id raw))"
    and "job_like.company j = ''Netflix''"
    and "\<exists>t. raw_title raw = PyStr t \<and> title j = strip t \<and> title j \<noteq> []"
    and "location j = Some (extract_location repr raw)"
  using assms
  by (auto simp: parse_job_def Let_def COMPANY_def split: if_splits pyval.splits)

lemma parse_job_None_iff:
  "parse_job repr raw = Inr None \<longleftrightarrow>
     native_id raw = PyNone \<or> (\<exists>t. raw_title raw = PyStr t \<and> strip t = [])"
  by (auto simp: parse_job_def Let_def split: if_splits pyval.splits)

lemma native_id_present:
  assumes "native_id raw \<noteq> PyNone"
  shows "\<exists>k\<in>{''id'', ''jobId'', ''positionId''}. dict_get raw k = native_id raw"
  using assms by (auto simp: native_id_def py_or_def split: if_splits)

lemma native_id_missing:
  "dict_get raw ''id'' = PyNone \<Longrightarrow> dict_get raw ''jobId'' = PyNone \<Longrightarrow>
   dict_get raw ''positionId'' = PyNone \<Longrightarrow> native_id raw = PyNone"
  by (simp add: native_id_def py_or_def)

lemma parse_page_inv:
  assumes "parse_page repr (ps, seen) raws = Inr (ps', seen')"
    and "\<forall>j\<in>set ps. \<exists>raw. parse_job repr raw = Inr (Some j)"
  shows "\<forall>j\<in>set ps'. \<exists>raw. parse_job repr raw = Inr (Some j)"
  using assms
proof (induction raws arbitrary: ps seen)
  case Nil
  then show ?case by simp
next
  case (Cons raw rest)
  show ?case
  proof (cases "parse_job repr raw")
    case (Inl e)
    with Cons.prems show ?thesis by simp
  next
    case (Inr r)
    show ?thesis
    proof (cases r)
      case None
      with Inr Cons show ?thesis by simp
    next
      case (Some j)
      show ?thesis
      proof (cases "job_id j \<in> seen")
        case True
        with Inr Some Cons show ?thesis by simp
      next
        case False
        with Inr Some Cons.prems(1)
        have "parse_page repr (ps @ [j], insert (job_id j) seen) rest = Inr (ps', seen')" by simp
        moreover have "\<forall>x\<in>set (ps @ [j]). \<exists>raw. parse_job repr raw = Inr (Some x)"
          using Cons.prems(2) Inr Some by auto
        ultimately show ?thesis by (rule Cons.IH)
      qed
    qed
  qed
qed

subsection \<open>The fetch loop\<close>

lemma fetch_loop_rule:
  assumes run: "fetch_loop repr api ps mp st = Some y"
    and init: "I st"
    and cont: "\<And>s s'. I s \<Longrightarrow> fetch_step repr api ps mp s = Inr (Continue s') \<Longrightarrow> I s'"
    and brk: "\<And>s s'. I s \<Longrightarrow> fetch_step repr api ps mp s = Inr (Break s') \<Longrightarrow> Q (Inr s')"
    and err: "\<And>s e. I s \<Longrightarrow> fetch_step repr api ps mp s = Inl e \<Longrightarrow> Q (Inl e)"
  shows "Q y"
proof -
  have "repr = repr \<longrightarrow> api = api \<longrightarrow> ps = ps \<longrightarrow> mp = mp \<longrightarrow> I st \<longrightarrow> Q y"
  proof (rule fetch_loop.raw_induct
      [where P = "\<lambda>r a p m s y. r = repr \<longrightarrow> a = api \<longrightarrow> p = ps \<longrightarrow> m = mp \<longrightarrow> I s \<longrightarrow> Q y",
        OF _ run])
    fix loop r a p m s y'
    assume IH: "\<And>r a p m s y. loop r a p m s = Some y \<Longrightarrow>
        r = repr \<longrightarrow> a = api \<longrightarrow> p = ps \<longrightarrow> m = mp \<longrightarrow> I s \<longrightarrow> Q y"
      and unf: "(case fetch_step r a p m s of
          Inl e \<Rightarrow> Some (Inl e) | Inr (Break st') \<Rightarrow> Some (Inr st')
        | Inr (Continue st') \<Rightarrow> loop r a p m st') = Some y'"
    show "r = repr \<longrightarrow> a = api \<longrightarrow> p = ps \<longrightarrow> m = mp \<longrightarrow> I s \<longrightarrow> Q y'"
    proof (intro impI)
      assume eq: "r = repr" "a = api" "p = ps" "m = mp" and inv: "I s"
      show "Q y'"
      proof (cases "fetch_step repr api ps mp s")
        case (Inl e)
        with unf eq have "y' = Inl e" by simp
        with err [OF inv Inl] show ?thesis by simp
      next
        case (Inr l)
        show ?thesis
        proof (cases l)
          case (Break s')
          with Inr unf eq have "y' = Inr s'" by simp
          with brk [OF inv] Inr Break show ?thesis by simp
        next
          case (Continue s')
          with Inr unf eq have "loop repr api ps mp s' = Some y'" by simp
          from IH [OF this] cont [OF inv] Inr Continue show ?thesis by simp
        qed
      qed
    qed
  qed
  with init show ?thesis by simp
qed

lemma handle_page_cases:
  assumes "handle_page repr st raws = Inr l"
  obtains (stuck) "sig_repeats st (page_signature repr raws (min 10 (length raws))) \<ge> 3"
      "l = Break (st\<lparr>repeat_sig_count := sig_repeats st (page_signature repr raws (min 10 (length raws))),
             last_sig := Some (page_signature repr raws (min 10 (length raws)))\<rparr>)"
  | (parsed) js seen where
      "sig_repeats st (page_signature repr raws (min 10 (length raws))) < 3"
      "parse_page repr (postings st, seen_ids st) raws = Inr (js, seen)"
      "l = (if (case total_opt st of None \<Rightarrow> False | Some t \<Rightarrow> int (length js) \<ge> t)
            then Break else Continue)
            (st\<lparr>repeat_sig_count := sig_repeats st (page_signature repr raws (min 10 (length raws))),
             last_sig := Some (page_signature repr raws (min 10 (length raws))),
             postings := js, seen_ids := seen,
             start := start st + int (length raws), page := page st + 1\<rparr>)"
  using assms unfolding handle_page_def Let_def
  by (auto split: if_splits sum.splits prod.splits)

lemma fetch_step_outer_cases:
  assumes "fetch_step repr api ps mp st = Inr l"
  obtains (cap) m where "mp = Some m" "page st \<ge> m" "l = Break st"
  | (empty) data tot where "api (length (requests st)) ps (start st) = Inr data"
      "extract_raw_jobs data = Inr []"
      "l = Break (st\<lparr>requests := requests st @ [(ps, start st)], total_opt := tot\<rparr>)"
  | (page) data raws tot where "api (length (requests st)) ps (start st) = Inr data"
      "extract_raw_jobs data = Inr raws" "raws \<noteq> []"
      "(if total_opt st = None then extract_total data else Inr (total_opt st)) = Inr tot"
      "handle_page repr (st\<lparr>requests := requests st @ [(ps, start st)], total_opt := tot\<rparr>) raws = Inr l"
  using assms unfolding fetch_step_def Let_def
  by (auto split: if_splits sum.splits option.splits)


lemma fetch_step_postings:
  assumes "fetch_step repr api ps mp st = Inr l"
    and "\<forall>j\<in>set (postings st). \<exists>raw. parse_job repr raw = Inr (Some j)"
  shows "\<forall>j\<in>set (postings (case l of Break s \<Rightarrow> s | Continue s \<Rightarrow> s)).
           \<exists>raw. parse_job repr raw = Inr (Some j)"
  using assms(1)
proof (cases rule: fetch_step_outer_cases)
  case (cap m)
  with assms(2) show ?thesis by simp
next
  case (empty data tot)
  with assms(2) show ?thesis by simp
next
  case (page data raws tot)
  from page(5) show ?thesis
  proof (cases rule: handle_page_cases)
    case stuck
    with assms(2) show ?thesis by simp
  next
    case (parsed js seen)
    from parsed(2) have "parse_page repr (postings st, seen_ids st) raws = Inr (js, seen)" by simp
    from parse_page_inv [OF this assms(2)] parsed(3) show ?thesis by simp
  qed
qed

lemma fetch_loop_postings:
  assumes "fetch_loop repr api ps mp initial_state = Some (Inr st)"
  shows "\<forall>j\<in>set (postings st). \<exists>raw. parse_job repr raw = Inr (Some j)"
proof -
  let ?I = "\<lambda>s. \<forall>j\<in>set (postings s). \<exists>raw. parse_job repr raw = Inr (Some j)"
  let ?Q = "\<lambda>y :: error + fetch_state. case y of Inl e \<Rightarrow> True | Inr s \<Rightarrow> ?I s"
  have "?Q (Inr st)"
  proof (rule fetch_loop_rule [where I = ?I and Q = ?Q, OF assms])
    show "?I initial_state" by (simp add: initial_state_def)
  next
    fix s s' assume "?I s" "fetch_step repr api ps mp s = Inr (Continue s')"
    from fetch_step_postings [OF this(2) this(1)] show "?I s'" by simp
  next
    fix s s' assume "?I s" "fetch_step repr api ps mp s = Inr (Break s')"
    from fetch_step_postings [OF this(2) this(1)]
    show "?Q (Inr s')" by simp
  next
    fix s e show "?Q (Inl e)" by simp
  qed
  then show ?thesis by simp
qed

lemma filter_jobs_subset: "filter_jobs keep js = Inr ks \<Longrightarrow> set ks \<subseteq> set js"
  by (induction js arbitrary: ks) (auto split: sum.splits if_splits)

lemma apply_filters_subset:
  assumes "apply_filters keywords location_contains js = Inr ks"
  shows "set ks \<subseteq> set js"
proof -
  from assms obtain ms where
    1: "(if clean_terms keywords \<noteq> []
         then filter_jobs (\<lambda>j. matches_any_keyword j (clean_terms keywords)) js else Inr js) = Inr ms"
    and 2: "ks = (if clean_terms location_contains \<noteq> []
          then filter (\<lambda>j. list_ex (\<lambda>t. contains
                          (lower (case location j of Some l \<Rightarrow> l | None \<Rightarrow> [])) t)
                            (clean_terms location_contains)) ms
          else ms)"
    by (auto simp: apply_filters_def Let_def split: sum.splits if_splits)
  from 1 have "set ms \<subseteq> set js"
    by (auto split: if_splits dest: filter_jobs_subset)
  moreover from 2 have "set ks \<subseteq> set ms" by auto
  ultimately show ?thesis by blast
qed

lemma fetch_jobs_parsed:
  assumes "fetch_jobs repr api ps mp keywords location_contains = Some (Inr (js, reqs))"
    and "j \<in> set js"
  shows "\<exists>raw. parse_job repr raw = Inr (Some j)"
proof -
  from assms(1) obtain st where st: "fetch_loop repr api ps mp initial_state = Some (Inr st)"
    and f: "apply_filters keywords location_contains (postings st) = Inr js"
    by (auto simp: fetch_jobs_def split: option.splits sum.splits)
  from apply_filters_subset [OF f] assms(2) have "j \<in> set (postings st)" by blast
  with fetch_loop_postings [OF st] show ?thesis by blast
qed

lemma upsert_location_overwritten:
  fixes j :: "('u, 'z) job_like_scheme"
  assumes "location j = Some l"
  shows "\<exists>r. select_job (upsert_jobs today conn [j]) (job_id j) = Some r \<and> location r = Some l"
  using assms
  by (auto simp: select_job_def upsert_jobs_def find_upsert_job_same split: option.splits)

text \<open>The pagination rule.\<close>

lemma fetch_step_requests:
  assumes "fetch_step repr api ps mp st = Inr l"
    and "requests st = map (\<lambda>k. (ps, nth_start api ps k)) [0..<length (requests st)]"
    and "start st = nth_start api ps (length (requests st))"
  shows "requests (case l of Break s \<Rightarrow> s | Continue s \<Rightarrow> s) =
           map (\<lambda>k. (ps, nth_start api ps k)) [0..<length (requests (case l of Break s \<Rightarrow> s | Continue s \<Rightarrow> s))]"
    and "\<forall>s. l = Continue s \<longrightarrow> start s = nth_start api ps (length (requests s))"
proof -
  let ?n = "length (requests st)"
  let ?f = "\<lambda>k. (ps, nth_start api ps k)"
  have ext: "requests st @ [(ps, start st)] = map ?f [0..<Suc ?n]"
    using assms(2,3) by simp
  have len: "length (requests st @ [(ps, start st)]) = Suc ?n" by simp
  from assms(1)
  have "requests (case l of Break s \<Rightarrow> s | Continue s \<Rightarrow> s) =
           map ?f [0..<length (requests (case l of Break s \<Rightarrow> s | Continue s \<Rightarrow> s))]
     \<and> (\<forall>s. l = Continue s \<longrightarrow> start s = nth_start api ps (length (requests s)))"
  proof (cases rule: fetch_step_outer_cases)
    case (cap m)
    with assms(2) show ?thesis by simp
  next
    case (empty data tot)
    then show ?thesis using ext by simp
  next
    case (page data raws tot)
    have adv: "start st + int (length raws) = nth_start api ps (Suc ?n)"
      using page(1,2) assms(3) by (simp add: returned_count_def)
    from page(5) show ?thesis
    proof (cases rule: handle_page_cases)
      case stuck
      then show ?thesis using ext by simp
    next
      case (parsed js seen)
      then show ?thesis using ext adv by (simp split: if_splits)
    qed
  qed
  then show "requests (case l of Break s \<Rightarrow> s | Continue s \<Rightarrow> s) =
           map ?f [0..<length (requests (case l of Break s \<Rightarrow> s | Continue s \<Rightarrow> s))]"
    and "\<forall>s. l = Continue s \<longrightarrow> start s = nth_start api ps (length (requests s))"
    by blast+
qed

lemma fetch_loop_requests:
  assumes "fetch_loop repr api ps mp initial_state = Some (Inr st)"
  shows "requests st = map (\<lambda>k. (ps, nth_start api ps k)) [0..<length (requests st)]"
proof -
  let ?f = "\<lambda>k. (ps, nth_start api ps k)"
  let ?I = "\<lambda>s. requests s = map ?f [0..<length (requests s)]
               \<and> start s = nth_start api ps (length (requests s))"
  let ?Q = "\<lambda>y :: error + fetch_state. case y of Inl e \<Rightarrow> True | Inr s \<Rightarrow> requests s = map ?f [0..<length (requests s)]"
  have "?Q (Inr st)"
  proof (rule fetch_loop_rule [where I = ?I and Q = ?Q, OF assms])
    show "?I initial_state" by (simp add: initial_state_def)
  next
    fix s s' assume "?I s" "fetch_step repr api ps mp s = Inr (Continue s')"
    then show "?I s'" using fetch_step_requests [of repr api ps mp s "Continue s'"] by simp
  next
    fix s s' assume "?I s" "fetch_step repr api ps mp s = Inr (Break s')"
    then show "?Q (Inr s')" using fetch_step_requests(1) [of repr api ps mp s "Break s'"] by simp
  next
    fix s e show "?Q (Inl e)" by simp
  qed
  then show ?thesis by simp
qed

subsection \<open>The stuck-pagination guard\<close>

lemma extract_total_ok:
  "extract_raw_jobs data = Inr raws \<Longrightarrow> \<exists>t. extract_total data = Inr t"
  by (cases data) (simp_all add: extract_raw_jobs_def extract_total_def)

lemma parse_page_ok:
  assumes "\<forall>raw\<in>set raws. \<forall>e. parse_job repr raw \<noteq> Inl e"
  shows "\<exists>js seen. parse_page repr (ps, seen0) raws = Inr (js, seen)"
  using assms
proof (induction raws arbitrary: ps seen0)
  case Nil
  then show ?case by simp
next
  case (Cons raw rest)
  from Cons.prems obtain r where r: "parse_job repr raw = Inr r"
    by (cases "parse_job repr raw") auto
  from Cons.prems have rest: "\<forall>raw\<in>set rest. \<forall>e. parse_job repr raw \<noteq> Inl e" by simp
  show ?case
  proof (cases r)
    case None
    with r Cons.IH [OF rest] show ?thesis by simp
  next
    case (Some j)
    with r Cons.IH [OF rest, of ps seen0] Cons.IH [OF rest, of "ps @ [j]" "insert (job_id j) seen0"]
    show ?thesis by simp
  qed
qed

lemma stuck_step:
  assumes H: "same_signature repr api sg"
  shows "\<exists>l. fetch_step repr api ps mp s = Inr l
    \<and> (case l of
         Break s' \<Rightarrow> length (requests s') \<le> Suc (length (requests s))
       | Continue s' \<Rightarrow> length (requests s') = Suc (length (requests s))
           \<and> last_sig s' = Some sg \<and> repeat_sig_count s' = sig_repeats s sg
           \<and> sig_repeats s sg < 3)"
proof (cases "case mp of None \<Rightarrow> False | Some m \<Rightarrow> page s \<ge> m")
  case True
  then have "fetch_step repr api ps mp s = Inr (Break s)" by (simp add: fetch_step_def)
  then show ?thesis by simp
next
  case nocap: False
  from H obtain data raws where
    data: "api (length (requests s)) ps (start s) = Inr data"
    and raws: "extract_raw_jobs data = Inr raws"
    and sg: "page_signature repr raws (min 10 (length raws)) = sg"
    and ok: "\<forall>raw\<in>set raws. \<forall>e. parse_job repr raw \<noteq> Inl e"
    unfolding same_signature_def by blast
  from extract_total_ok [OF raws] obtain t where "extract_total data = Inr t" ..
  then obtain tot where
    tot: "(if total_opt s = None then extract_total data else Inr (total_opt s)) = Inr tot"
    by (cases "total_opt s = None") auto
  define s1 where "s1 = s\<lparr>requests := requests s @ [(ps, start s)], total_opt := tot\<rparr>"
  have step: "fetch_step repr api ps mp s =
      (if raws = [] then Inr (Break s1) else handle_page repr s1 raws)"
    using nocap data raws tot by (simp add: fetch_step_def s1_def)
  show ?thesis
  proof (cases "raws = []")
    case True
    with step have "fetch_step repr api ps mp s = Inr (Break s1)" by simp
    then show ?thesis by (simp add: s1_def)
  next
    case ne: False
    have rep: "sig_repeats s1 sg = sig_repeats s sg" by (simp add: sig_repeats_def s1_def)
    define s2 where "s2 = s1\<lparr>repeat_sig_count := sig_repeats s sg, last_sig := Some sg\<rparr>"
    show ?thesis
    proof (cases "sig_repeats s sg \<ge> 3")
      case True
      then have "handle_page repr s1 raws = Inr (Break s2)"
        by (simp add: handle_page_def Let_def sg rep s2_def)
      with step ne have "fetch_step repr api ps mp s = Inr (Break s2)" by simp
      then show ?thesis by (simp add: s2_def s1_def)
    next
      case small: False
      from parse_page_ok [OF ok] obtain js seen where
        pp: "parse_page repr (postings s, seen_ids s) raws = Inr (js, seen)" by blast
      define s3 where "s3 = s2\<lparr>postings := js, seen_ids := seen,
          start := start s + int (length raws), page := page s + 1\<rparr>"
      have s1: "postings s1 = postings s" "seen_ids s1 = seen_ids s" "start s1 = start s"
        "page s1 = page s" "total_opt s1 = tot"
        by (simp_all add: s1_def)
      have "handle_page repr s1 raws =
          (if (case tot of None \<Rightarrow> False | Some t \<Rightarrow> int (length js) \<ge> t)
           then Inr (Break s3) else Inr (Continue s3))"
        using small pp by (simp add: handle_page_def Let_def sg rep s1 s3_def s2_def)
      with step ne have "fetch_step repr api ps mp s =
          (if (case tot of None \<Rightarrow> False | Some t \<Rightarrow> int (length js) \<ge> t)
           then Inr (Break s3) else Inr (Continue s3))" by simp
      moreover have "length (requests s3) = Suc (length (requests s))" "last_sig s3 = Some sg"
        "repeat_sig_count s3 = sig_repeats s sg"
        by (simp_all add: s3_def s2_def s1_def)
      ultimately show ?thesis using small by simp
    qed
  qed
qed

lemma stuck_countdown:
  assumes H: "same_signature repr api sg"
    and "last_sig s = Some sg" "repeat_sig_count s = r" "0 \<le> r" "r \<le> 2" "k = nat (2 - r)"
  shows "\<exists>s'. fetch_loop repr api ps mp s = Some (Inr s')
    \<and> length (requests s') \<le> length (requests s) + Suc k"
  using assms(2-)
proof (induction k arbitrary: s r)
  case 0
  then have r2: "r = 2" by simp
  from stuck_step [OF H, of ps mp s] obtain l where
    l: "fetch_step repr api ps mp s = Inr l"
    and c: "case l of
         Break s' \<Rightarrow> length (requests s') \<le> Suc (length (requests s))
       | Continue s' \<Rightarrow> length (requests s') = Suc (length (requests s))
           \<and> last_sig s' = Some sg \<and> repeat_sig_count s' = sig_repeats s sg
           \<and> sig_repeats s sg < 3" by blast
  have "sig_repeats s sg = 3" using 0 r2 by (simp add: sig_repeats_def)
  with c obtain s' where "l = Break s'" "length (requests s') \<le> Suc (length (requests s))"
    by (cases l) auto
  with l show ?case by (subst fetch_loop.simps) simp
next
  case (Suc k)
  from stuck_step [OF H, of ps mp s] obtain l where
    l: "fetch_step repr api ps mp s = Inr l"
    and c: "case l of
         Break s' \<Rightarrow> length (requests s') \<le> Suc (length (requests s))
       | Continue s' \<Rightarrow> length (requests s') = Suc (length (requests s))
           \<and> last_sig s' = Some sg \<and> repeat_sig_count s' = sig_repeats s sg
           \<and> sig_repeats s sg < 3" by blast
  have rep: "sig_repeats s sg = r + 1" using Suc.prems by (simp add: sig_repeats_def)
  show ?case
  proof (cases l)
    case (Break s')
    with l c show ?thesis by (subst fetch_loop.simps) simp
  next
    case (Continue s')
    with c rep have s': "length (requests s') = Suc (length (requests s))"
      "last_sig s' = Some sg" "repeat_sig_count s' = r + 1" by simp_all
    from Suc.prems have "0 \<le> r + 1" "r + 1 \<le> 2" "k = nat (2 - (r + 1))" by simp_all
    from Suc.IH [OF s'(2,3) this] obtain s'' where
      "fetch_loop repr api ps mp s' = Some (Inr s'')"
      "length (requests s'') \<le> length (requests s') + Suc k" by blast
    with l Continue s'(1) show ?thesis by (subst fetch_loop.simps) simp
  qed
qed

lemma stuck_loop:
  assumes H: "same_signature repr api sg"
  shows "\<exists>s'. fetch_loop repr api ps mp initial_state = Some (Inr s') \<and> length (requests s') \<le> 4"
proof -
  let ?s = initial_state
  from stuck_step [OF H, of ps mp ?s] obtain l where
    l: "fetch_step repr api ps mp ?s = Inr l"
    and c: "case l of
         Break s' \<Rightarrow> length (requests s') \<le> Suc (length (requests ?s))
       | Continue s' \<Rightarrow> length (requests s') = Suc (length (requests ?s))
           \<and> last_sig s' = Some sg \<and> repeat_sig_count s' = sig_repeats ?s sg
           \<and> sig_repeats ?s sg < 3" by blast
  have n0: "length (requests ?s) = 0" and rep: "sig_repeats ?s sg = 0"
    by (simp_all add: initial_state_def sig_repeats_def)
  show ?thesis
  proof (cases l)
    case (Break s')
    with l c n0 show ?thesis by (subst fetch_loop.simps) simp
  next
    case (Continue s')
    with c rep n0 have s': "length (requests s') = 1" "last_sig s' = Some sg"
      "repeat_sig_count s' = 0" by simp_all
    from stuck_countdown [OF H s'(2,3), of 2 ps mp] obtain s'' where
      "fetch_loop repr api ps mp s' = Some (Inr s'')"
      "length (requests s'') \<le> length (requests s') + Suc 2" by auto
    with l Continue s'(1) show ?thesis by (subst fetch_loop.simps) simp
  qed
qed

lemma apply_filters_no_keywords: "\<exists>ks. apply_filters None location_contains js = Inr ks"
  by (simp add: apply_filters_def clean_terms_def Let_def)

lemma stuck_fetch_jobs:
  assumes H: "same_signature repr api sg"
  shows "\<exists>js reqs. fetch_jobs repr api ps mp None location_contains = Some (Inr (js, reqs))
     \<and> length reqs \<le> 4"
proof -
  from stuck_loop [OF H, of ps mp] obtain s' where
    s': "fetch_loop repr api ps mp initial_state = Some (Inr s')" "length (requests s') \<le> 4"
    by blast
  from apply_filters_no_keywords [of location_contains "postings s'"] obtain ks where
    "apply_filters None location_contains (postings s') = Inr ks" ..
  with s' show ?thesis by (simp add: fetch_jobs_def)
qed

lemma page_signature_native_ids:
  "page_signature repr raws (min 10 (length raws)) =
     map (\<lambda>j. py_str repr (py_or (native_id j) (PyStr []))) (take 10 raws)"
proof -
  have "py_or (dict_get j ''id'') (py_or (dict_get j ''jobId'') (py_or (dict_get j ''positionId'') (PyStr [])))
      = py_or (native_id j) (PyStr [])" for j
    by (simp add: native_id_def py_or_def)
  moreover have "take (min 10 (length raws)) raws = take 10 raws" by (simp add: min_def)
  ultimately show ?thesis by (simp add: page_signature_def)
qed

subsection \<open>Runs against the simulated servers\<close>

lemma capped_run:
  "(case fetch_jobs repr (capped_api (sim_records 25) 10) 100 (Some 800) None None of
      Some (Inr (js, reqs)) \<Rightarrow>
        reqs = [(100, 0), (100, 10), (100, 20)] \<and> length js = 25 \<and> distinct (map job_id js)
    | _ \<Rightarrow> False)"
  by code_simp

lemma stuck_run:
  "(case fetch_jobs repr (stuck_api (sim_records 10)) 100 (Some 800) None None of
      Some (Inr (js, reqs)) \<Rightarrow>
        reqs = [(100, 0), (100, 10), (100, 20), (100, 30)] \<and> length js = 10
    | _ \<Rightarrow> False)"
  by code_simp

lemma messy_run:
  "fetch_jobs repr (capped_api messy_records 10) 100 (Some 800) None None =
   Some (Inr ([\<lparr>company = ''Netflix'', job_id = ''Netflix:7'', title = ''Data Engineer'',
                 url = PyStr ''https://explore.jobs.netflix.net/jobs/7'',
                 location = Some ''Unspecified'', description = PyNone\<rparr>],
              [(100, 0), (100, 3)]))"
  by code_simp

lemma stuck_api_same_signature:
  "same_signature repr (stuck_api (sim_records 10))
     (map str_of_nat [1..<11])"
proof -
  have sg: "page_signature repr (sim_records 10) (min 10 (length (sim_records 10))) =
      (map str_of_nat [1..<11])"
    by code_simp
  have "list_all (\<lambda>raw. case parse_job repr raw of Inl e \<Rightarrow> False | Inr r \<Rightarrow> True) (sim_records 10)"
    by code_simp
  then have ok: "\<forall>raw\<in>set (sim_records 10). \<forall>e. parse_job repr raw \<noteq> Inl e"
    by (auto simp: list_all_iff split: sum.splits)
  have raws: "extract_raw_jobs (PyDict [(''jobs'', PyList (map PyDict (sim_records 10)))]) =
      Inr (sim_records 10)"
  proof -
    have "concat (map (\<lambda>j. case j of PyDict r \<Rightarrow> [r] | _ \<Rightarrow> []) (map PyDict rs)) = rs" for rs
      by (induction rs) simp_all
    moreover have "sim_records 10 \<noteq> []" by (simp add: sim_records_def upt_rec)
    ultimately show ?thesis
      by (simp add: extract_raw_jobs_def dict_get_def py_or_def)
  qed
  show ?thesis
    unfolding same_signature_def stuck_api_def using raws sg ok by blast
qed

subsection \<open>Claims about the Netflix connector\<close>

text \<open>
  Claim C2. Whenever \<open>fetch_jobs\<close> returns, the page requests it issued all carry the
  page size as \<open>limit\<close>, the first starts at 0, and each later one starts where the
  previous one did plus the number of records the previous response actually returned.
  Against a server that returns 10 records per call whatever the limit, 25 records in all
  and the count 25, \<open>fetch_jobs\<close> with the limit 100 issues exactly three requests, with
  the starts 0, 10 and 20, and returns 25 jobs of distinct ids.
\<close>

theorem fetch_jobs_start_advances:
  "(fetch_jobs repr get_jobs_page page_size max_pages keywords location_contains =
        Some (Inr (js, reqs)) \<longrightarrow>
      reqs = map (\<lambda>k. (page_size, nth_start get_jobs_page page_size k)) [0..<length reqs])
   \<and> (\<exists>js25. fetch_jobs repr (capped_api (sim_records 25) 10) 100 (Some 800) None None =
          Some (Inr (js25, [(100, 0), (100, 10), (100, 20)]))
        \<and> length js25 = 25 \<and> distinct (map job_id js25))"
proof (intro conjI impI)
  assume run: "fetch_jobs repr get_jobs_page page_size max_pages keywords location_contains =
        Some (Inr (js, reqs))"
  then obtain st where
    st: "fetch_loop repr get_jobs_page page_size max_pages initial_state = Some (Inr st)"
    and reqs: "reqs = requests st"
    by (auto simp: fetch_jobs_def split: option.splits sum.splits)
  from fetch_loop_requests [OF st] reqs
  show "reqs = map (\<lambda>k. (page_size, nth_start get_jobs_page page_size k)) [0..<length reqs]"
    by simp
next
  from capped_run [of repr]
  show "\<exists>js25. fetch_jobs repr (capped_api (sim_records 25) 10) 100 (Some 800) None None =
          Some (Inr (js25, [(100, 0), (100, 10), (100, 20)]))
        \<and> length js25 = 25 \<and> distinct (map job_id js25)"
    by (auto split: option.splits sum.splits)
qed

theorem fetch_jobs_start_advances_witness:
  "\<exists>js25. fetch_jobs (\<lambda>v. []) (capped_api (sim_records 25) 10) 100 (Some 800) None None =
          Some (Inr (js25, [(100, 0), (100, 10), (100, 20)]))
     \<and> length js25 = 25
     \<and> map (\<lambda>k. (100 :: int, nth_start (capped_api (sim_records 25) 10) 100 k)) [0..<3] =
         [(100, 0), (100, 10), (100, 20)]"
proof -
  have "\<exists>js25. fetch_jobs (\<lambda>v. []) (capped_api (sim_records 25) 10) 100 (Some 800) None None =
          Some (Inr (js25, [(100, 0), (100, 10), (100, 20)]))
        \<and> length js25 = 25 \<and> distinct (map job_id js25)"
    by (rule conjunct2 [OF fetch_jobs_start_advances [of "\<lambda>v. []"]])
  then obtain js25 where
    run: "fetch_jobs (\<lambda>v. []) (capped_api (sim_records 25) 10) 100 (Some 800) None None =
          Some (Inr (js25, [(100, 0), (100, 10), (100, 20)]))"
    and len: "length js25 = 25"
    by (elim exE conjE)
  have three: "length [(100 :: int, 0 :: int), (100, 10), (100, 20)] = 3" by simp
  have "[(100 :: int, 0 :: int), (100, 10), (100, 20)] =
      map (\<lambda>k. (100, nth_start (capped_api (sim_records 25) 10) 100 k))
        [0..<length [(100 :: int, 0 :: int), (100, 10), (100, 20)]]"
    by (rule mp [OF conjunct1 [OF fetch_jobs_start_advances [of "\<lambda>v. []"
      "capped_api (sim_records 25) 10" 100 "Some 800" None None js25
      "[(100, 0), (100, 10), (100, 20)]"]] run])
  then have starts: "map (\<lambda>k. (100 :: int, nth_start (capped_api (sim_records 25) 10) 100 k)) [0..<3] =
      [(100, 0), (100, 10), (100, 20)]"
    unfolding three by (rule sym)
  show ?thesis
    by (rule exI [of _ js25]) (intro conjI run len starts)
qed

text \<open>
  Claim C3. The signature of a page is the list of the native ids of its first 10
  postings. Against a server whose every response has the same signature (and whose
  postings parse), \<open>fetch_jobs\<close> returns, without an error, after at most 4 page
  requests, whatever the page cap, even with none. Against the server that always
  returns the same 10 records it issues exactly 4 requests and returns the 10 jobs
  collected before the guard tripped.
\<close>

theorem fetch_jobs_stuck_guard:
  "(same_signature repr get_jobs_page sg \<longrightarrow>
      (\<exists>js reqs. fetch_jobs repr get_jobs_page page_size max_pages None location_contains =
          Some (Inr (js, reqs)) \<and> length reqs \<le> 4))
   \<and> page_signature repr raw_jobs (min 10 (length raw_jobs)) =
       map (\<lambda>j. py_str repr (py_or (native_id j) (PyStr []))) (take 10 raw_jobs)
   \<and> (\<exists>js10. fetch_jobs repr (stuck_api (sim_records 10)) 100 (Some 800) None None =
          Some (Inr (js10, [(100, 0), (100, 10), (100, 20), (100, 30)]))
        \<and> length js10 = 10)"
proof (intro conjI impI)
  assume "same_signature repr get_jobs_page sg"
  then show "\<exists>js reqs. fetch_jobs repr get_jobs_page page_size max_pages None location_contains =
          Some (Inr (js, reqs)) \<and> length reqs \<le> 4"
    by (rule stuck_fetch_jobs)
next
  show "page_signature repr raw_jobs (min 10 (length raw_jobs)) =
       map (\<lambda>j. py_str repr (py_or (native_id j) (PyStr []))) (take 10 raw_jobs)"
    by (rule page_signature_native_ids)
next
  from stuck_run [of repr]
  show "\<exists>js10. fetch_jobs repr (stuck_api (sim_records 10)) 100 (Some 800) None None =
          Some (Inr (js10, [(100, 0), (100, 10), (100, 20), (100, 30)]))
        \<and> length js10 = 10"
    by (auto split: option.splits sum.splits)
qed

theorem fetch_jobs_stuck_guard_witness:
  "same_signature (\<lambda>v. []) (stuck_api (sim_records 10))
     (map str_of_nat [1..<11])
   \<and> (\<exists>js reqs. fetch_jobs (\<lambda>v. []) (stuck_api (sim_records 10)) 100 None None None =
          Some (Inr (js, reqs)) \<and> length reqs \<le> 4)"
proof
  show sg: "same_signature (\<lambda>v. []) (stuck_api (sim_records 10))
     (map str_of_nat [1..<11])"
    by (rule stuck_api_same_signature)
  show "\<exists>js reqs. fetch_jobs (\<lambda>v. []) (stuck_api (sim_records 10)) 100 None None None =
          Some (Inr (js, reqs)) \<and> length reqs \<le> 4"
    by (rule mp [OF conjunct1 [OF fetch_jobs_stuck_guard [of "\<lambda>v. []" "stuck_api (sim_records 10)"
      "(map str_of_nat [1..<11])" 100 None None "[]"]] sg])
qed

text \<open>
  Claim C10. Every job that \<open>fetch_jobs\<close> returns was parsed from a posting with a
  native id: its title is not empty, its \<open>job_id\<close> is \<open>Netflix:\<close> followed by the
  trimmed text of that id, and its location is a string that is not empty
  (\<open>Unspecified\<close> when the posting gives none). A posting is dropped without an error
  exactly when it has no native id (no true \<open>id\<close> or \<open>jobId\<close> and no \<open>positionId\<close>) or
  its title is blank. Since the location is never absent, upserting such a job sets the
  stored location to the job's, whatever was stored.
\<close>

theorem netflix_job_invariants:
  "(fetch_jobs repr get_jobs_page page_size max_pages keywords location_contains =
        Some (Inr (js, reqs)) \<and> j \<in> set js \<longrightarrow>
      title j \<noteq> []
      \<and> (\<exists>raw. parse_job repr raw = Inr (Some j) \<and> native_id raw \<noteq> PyNone
            \<and> job_id j = ''Netflix:'' @ strip (py_str repr (native_id raw)))
      \<and> (\<exists>l. location j = Some l \<and> l \<noteq> [])
      \<and> (\<forall>today conn. \<exists>r. select_job (upsert_jobs today conn [j]) (job_id j) = Some r
            \<and> location r = location j))
   \<and> (parse_job repr raw = Inr None \<longleftrightarrow>
        native_id raw = PyNone \<or> (\<exists>t. raw_title raw = PyStr t \<and> strip t = []))
   \<and> (native_id raw = PyNone \<longleftrightarrow>
        \<not> truthy (dict_get raw ''id'') \<and> \<not> truthy (dict_get raw ''jobId'')
        \<and> dict_get raw ''positionId'' = PyNone)
   \<and> extract_location repr raw \<noteq> []"
proof (intro conjI impI)
  assume "fetch_jobs repr get_jobs_page page_size max_pages keywords location_contains =
        Some (Inr (js, reqs)) \<and> j \<in> set js"
  then obtain raw0 where p: "parse_job repr raw0 = Inr (Some j)"
    using fetch_jobs_parsed by blast
  from parse_job_Some [OF p] have id: "native_id raw0 \<noteq> PyNone"
    "job_id j = ''Netflix:'' @ strip (py_str repr (native_id raw0))"
    and t: "title j \<noteq> []" and l: "location j = Some (extract_location repr raw0)"
    by auto
  show "title j \<noteq> []" by (rule t)
  show "\<exists>raw. parse_job repr raw = Inr (Some j) \<and> native_id raw \<noteq> PyNone
            \<and> job_id j = ''Netflix:'' @ strip (py_str repr (native_id raw))"
    using p id by blast
  show "\<exists>l. location j = Some l \<and> l \<noteq> []"
    using l extract_location_nonempty [of repr raw0] by simp
  show "\<forall>today conn. \<exists>r. select_job (upsert_jobs today conn [j]) (job_id j) = Some r
            \<and> location r = location j"
    using upsert_location_overwritten [OF l] l by simp
next
  show "parse_job repr raw = Inr None \<longleftrightarrow>
        native_id raw = PyNone \<or> (\<exists>t. raw_title raw = PyStr t \<and> strip t = [])"
    by (rule parse_job_None_iff)
next
  show "native_id raw = PyNone \<longleftrightarrow>
        \<not> truthy (dict_get raw ''id'') \<and> \<not> truthy (dict_get raw ''jobId'')
        \<and> dict_get raw ''positionId'' = PyNone"
    by (auto simp: native_id_def py_or_def)
next
  show "extract_location repr raw \<noteq> []" by (rule extract_location_nonempty)
qed

theorem netflix_job_invariants_witness:
  "fetch_jobs (\<lambda>v. []) (capped_api messy_records 10) 100 (Some 800) None None =
     Some (Inr ([\<lparr>company = ''Netflix'', job_id = ''Netflix:7'', title = ''Data Engineer'',
                   url = PyStr ''https://explore.jobs.netflix.net/jobs/7'',
                   location = Some ''Unspecified'', description = PyNone\<rparr>],
                [(100, 0), (100, 3)]))
   \<and> select_job
        \<lparr>jobs = [\<lparr>company = ''Netflix'', job_id = ''Netflix:7'', title = ''Data Engineer'',
                   url = PyStr ''https://explore.jobs.netflix.net/jobs/7'',
                   location = Some ''Los Gatos, CA'',
                   first_seen = ''2024-05-01'', last_seen = ''2024-05-01''\<rparr>],
         runs = []\<rparr> ''Netflix:7'' =
       Some \<lparr>company = ''Netflix'', job_id = ''Netflix:7'', title = ''Data Engineer'',
             url = PyStr ''https://explore.jobs.netflix.net/jobs/7'',
             location = Some ''Los Gatos, CA'',
             first_seen = ''2024-05-01'', last_seen = ''2024-05-01''\<rparr>
   \<and> (\<exists>r. select_job
        (upsert_jobs ''2024-05-02''
           \<lparr>jobs = [\<lparr>company = ''Netflix'', job_id = ''Netflix:7'', title = ''Data Engineer'',
                      url = PyStr ''https://explore.jobs.netflix.net/jobs/7'',
                      location = Some ''Los Gatos, CA'',
                      first_seen = ''2024-05-01'', last_seen = ''2024-05-01''\<rparr>],
            runs = []\<rparr>
           [\<lparr>company = ''Netflix'', job_id = ''Netflix:7'', title = ''Data Engineer'',
             url = PyStr ''https://explore.jobs.netflix.net/jobs/7'',
             location = Some ''Unspecified'', description = PyNone\<rparr>])
        ''Netflix:7'' = Some r \<and> location r = Some ''Unspecified'')"
proof -
  let ?j = "\<lparr>company = ''Netflix'', job_id = ''Netflix:7'', title = ''Data Engineer'',
             url = PyStr ''https://explore.jobs.netflix.net/jobs/7'',
             location = Some ''Unspecified'', description = PyNone\<rparr>"
  let ?conn = "\<lparr>jobs = [\<lparr>company = ''Netflix'', job_id = ''Netflix:7'', title = ''Data Engineer'',
                      url = PyStr ''https://explore.jobs.netflix.net/jobs/7'',
                      location = Some ''Los Gatos, CA'',
                      first_seen = ''2024-05-01'', last_seen = ''2024-05-01''\<rparr>],
            runs = []\<rparr>"
  have run: "fetch_jobs (\<lambda>v. []) (capped_api messy_records 10) 100 (Some 800) None None =
     Some (Inr ([?j], [(100, 0), (100, 3)]))"
    by (rule messy_run)
  have mem: "?j \<in> set [?j]" by simp
  note inv = mp [OF conjunct1 [OF netflix_job_invariants [of "\<lambda>v. []" "capped_api messy_records 10"
      100 "Some 800" None None "[?j]" "[(100, 0), (100, 3)]" ?j "[]"]] conjI [OF run mem]]
  from inv have "\<forall>today conn. \<exists>r. select_job (upsert_jobs today conn [?j]) (job_id ?j) = Some r
      \<and> location r = location ?j"
    by (elim conjE)
  then have "\<exists>r. select_job (upsert_jobs ''2024-05-02'' ?conn [?j]) (job_id ?j) = Some r
      \<and> location r = location ?j"
    by (elim allE)
  then have after: "\<exists>r. select_job (upsert_jobs ''2024-05-02'' ?conn [?j]) ''Netflix:7'' = Some r
      \<and> location r = Some ''Unspecified''"
    by simp
  have before: "select_job ?conn ''Netflix:7'' =
       Some \<lparr>company = ''Netflix'', job_id = ''Netflix:7'', title = ''Data Engineer'',
             url = PyStr ''https://explore.jobs.netflix.net/jobs/7'',
             location = Some ''Los Gatos, CA'',
             first_seen = ''2024-05-01'', last_seen = ''2024-05-01''\<rparr>"
    by (simp add: select_job_def)
  show ?thesis
    by (intro conjI run before after)
qed


end
